theory Spec2Isabelle
  imports Complex_Main
begin

section \<open>Numeric and geometric data\<close>

text \<open>
  The C++ sources compute with \<open>double\<close>; the embedding uses \<^typ>\<open>real\<close>, so every
  statement below is about the exact-arithmetic reading of the code (no rounding, no NaN or
  infinity). Indices and polynomial degrees are \<open>size_t\<close> in the source and \<^typ>\<open>nat\<close>
  here: the degrees and array sizes the library works with are far below \<open>2^64\<close>, and no
  index expression of the modelled functions subtracts below zero.
\<close>

type_synonym VectorRd = "real \<times> real \<times> real"
type_synonym VectorZd = "nat \<times> nat \<times> nat"
type_synonym Vector2d = "real \<times> real"
type_synonym Vector2i = "nat \<times> nat"

definition Zero3 :: VectorRd where
  "Zero3 = (0, 0, 0)"

fun minus3 :: "VectorRd \<Rightarrow> VectorRd \<Rightarrow> VectorRd" where
  "minus3 (a, b, c) (a', b', c') = (a - a', b - b', c - c')"

fun plus3 :: "VectorRd \<Rightarrow> VectorRd \<Rightarrow> VectorRd" where
  "plus3 (a, b, c) (a', b', c') = (a + a', b + b', c + c')"

fun scale3 :: "real \<Rightarrow> VectorRd \<Rightarrow> VectorRd" where
  "scale3 s (a, b, c) = (s * a, s * b, s * c)"

fun divide3 :: "VectorRd \<Rightarrow> real \<Rightarrow> VectorRd" where
  "divide3 (a, b, c) s = (a / s, b / s, c / s)"

fun dot :: "VectorRd \<Rightarrow> VectorRd \<Rightarrow> real" where
  "dot (a, b, c) (a', b', c') = a * a' + b * b' + c * c'"

fun cross :: "VectorRd \<Rightarrow> VectorRd \<Rightarrow> VectorRd" where
  "cross (a, b, c) (a', b', c') = (b * c' - c * b', c * a' - a * c', a * b' - b * a')"

text \<open>The mesh entities, reduced to the geometric data the bases read from them.\<close>

record Cell =
  cell_center_mass :: VectorRd
  cell_diam :: real

record Face =
  face_center_mass :: VectorRd
  face_diam :: real
  face_normal :: VectorRd
  face_edge0_tangent :: VectorRd
  face_edge_normal0 :: VectorRd

record Edge =
  edge_center_mass :: VectorRd
  edge_diam :: real
  edge_tangent :: VectorRd

section \<open>Scalar monomial bases (basis.cpp)\<close>

subsection \<open>Cell\<close>

record MonomialScalarBasisCell =
  mc_degree :: nat
  m_xT :: VectorRd
  m_hT :: real
  mc_powers :: "VectorZd list"

text \<open>
  The three nested loops of the constructor, innermost first. Each carries the vector
  \<open>m_powers\<close> and appends to it as \<open>push_back\<close> does; the loop conditions are the
  source's (\<open>i + j <= l\<close>, \<open>i <= l\<close>, \<open>l <= m_degree\<close>).
\<close>

function cell_loop_j :: "nat \<Rightarrow> nat \<Rightarrow> nat \<Rightarrow> VectorZd list \<Rightarrow> VectorZd list" where
  "cell_loop_j l i j ps =
     (if i + j \<le> l then cell_loop_j l i (Suc j) (ps @ [(i, j, l - i - j)]) else ps)"
  by pat_completeness auto
termination
  by (relation "measure (\<lambda>(l, i, j, ps). Suc l - (i + j))") auto

function cell_loop_i :: "nat \<Rightarrow> nat \<Rightarrow> VectorZd list \<Rightarrow> VectorZd list" where
  "cell_loop_i l i ps =
     (if i \<le> l then cell_loop_i l (Suc i) (cell_loop_j l i 0 ps) else ps)"
  by pat_completeness auto
termination
  by (relation "measure (\<lambda>(l, i, ps). Suc l - i)") auto

function cell_loop_l :: "nat \<Rightarrow> nat \<Rightarrow> VectorZd list \<Rightarrow> VectorZd list" where
  "cell_loop_l m l ps =
     (if l \<le> m then cell_loop_l m (Suc l) (cell_loop_i l 0 ps) else ps)"
  by pat_completeness auto
termination
  by (relation "measure (\<lambda>(m, l, ps). Suc m - l)") auto

declare cell_loop_j.simps [simp del] cell_loop_i.simps [simp del] cell_loop_l.simps [simp del]

definition MonomialScalarBasisCell :: "Cell \<Rightarrow> nat \<Rightarrow> MonomialScalarBasisCell" where
  "MonomialScalarBasisCell T degree =
     \<lparr> mc_degree = degree, m_xT = cell_center_mass T, m_hT = cell_diam T,
       mc_powers = cell_loop_l degree 0 [] \<rparr>"

text \<open>
  Modelled from the spec: \<open>_coordinate_transform\<close> of the cell basis (declared in basis.hpp)
  maps \<open>x\<close> to \<open>(x - centerOfMass) / diameter\<close>, componentwise.
\<close>

definition cell_coordinate_transform :: "MonomialScalarBasisCell \<Rightarrow> VectorRd \<Rightarrow> VectorRd" where
  "cell_coordinate_transform B x = divide3 (minus3 x (m_xT B)) (m_hT B)"

text \<open>
  \<open>m_powers[i]\<close> is an unchecked \<open>std::vector\<close> access; the model returns \<open>None\<close> for a
  slot outside the vector.
\<close>

definition cell_function :: "MonomialScalarBasisCell \<Rightarrow> nat \<Rightarrow> VectorRd \<Rightarrow> real option" where
  "cell_function B i x =
     (if i < length (mc_powers B) then
        (case (cell_coordinate_transform B x, mc_powers B ! i) of
           ((y0, y1, y2), (p0, p1, p2)) \<Rightarrow> Some (y0 ^ p0 * y1 ^ p1 * y2 ^ p2))
      else None)"

definition cell_gradient :: "MonomialScalarBasisCell \<Rightarrow> nat \<Rightarrow> VectorRd \<Rightarrow> VectorRd option" where
  "cell_gradient B i x =
     (if i < length (mc_powers B) then
        (case (cell_coordinate_transform B x, mc_powers B ! i) of
           ((y0, y1, y2), (p0, p1, p2)) \<Rightarrow>
             Some (divide3
               ((if p0 = 0 then 0 else real p0 * y0 ^ (p0 - 1) * y1 ^ p1 * y2 ^ p2),
                (if p1 = 0 then 0 else y0 ^ p0 * real p1 * y1 ^ (p1 - 1) * y2 ^ p2),
                (if p2 = 0 then 0 else y0 ^ p0 * y1 ^ p1 * real p2 * y2 ^ (p2 - 1)))
               (m_hT B)))
      else None)"

subsection \<open>Face\<close>

record MonomialScalarBasisFace =
  mf_degree :: nat
  m_xF :: VectorRd
  m_hF :: real
  m_nF :: VectorRd
  m_jacobian :: "VectorRd \<times> VectorRd"
  mf_powers :: "Vector2i list"

function face_loop_i :: "nat \<Rightarrow> nat \<Rightarrow> Vector2i list \<Rightarrow> Vector2i list" where
  "face_loop_i l i ps =
     (if i \<le> l then face_loop_i l (Suc i) (ps @ [(i, l - i)]) else ps)"
  by pat_completeness auto
termination
  by (relation "measure (\<lambda>(l, i, ps). Suc l - i)") auto

function face_loop_l :: "nat \<Rightarrow> nat \<Rightarrow> Vector2i list \<Rightarrow> Vector2i list" where
  "face_loop_l m l ps =
     (if l \<le> m then face_loop_l m (Suc l) (face_loop_i l 0 ps) else ps)"
  by pat_completeness auto
termination
  by (relation "measure (\<lambda>(m, l, ps). Suc m - l)") auto

declare face_loop_i.simps [simp del] face_loop_l.simps [simp del]

text \<open>
  The Jacobian is the 2-by-3 matrix whose rows are the tangent of the face's edge 0 and the
  in-plane normal of that edge, both divided by the face diameter; it is kept as its two rows.
\<close>

definition MonomialScalarBasisFace :: "Face \<Rightarrow> nat \<Rightarrow> MonomialScalarBasisFace" where
  "MonomialScalarBasisFace F degree =
     \<lparr> mf_degree = degree, m_xF = face_center_mass F, m_hF = face_diam F,
       m_nF = face_normal F,
       m_jacobian = (divide3 (face_edge0_tangent F) (face_diam F),
                     divide3 (face_edge_normal0 F) (face_diam F)),
       mf_powers = face_loop_l degree 0 [] \<rparr>"

text \<open>
  Modelled from the spec: \<open>_coordinate_transform\<close> of the face basis (declared in basis.hpp)
  projects \<open>x - centerOfMass\<close> onto the two rows of the scaled in-plane frame.
\<close>

definition face_coordinate_transform :: "MonomialScalarBasisFace \<Rightarrow> VectorRd \<Rightarrow> Vector2d" where
  "face_coordinate_transform B x =
     (dot (fst (m_jacobian B)) (minus3 x (m_xF B)), dot (snd (m_jacobian B)) (minus3 x (m_xF B)))"

definition face_function :: "MonomialScalarBasisFace \<Rightarrow> nat \<Rightarrow> VectorRd \<Rightarrow> real option" where
  "face_function B i x =
     (if i < length (mf_powers B) then
        (case (face_coordinate_transform B x, mf_powers B ! i) of
           ((y0, y1), (p0, p1)) \<Rightarrow> Some (y0 ^ p0 * y1 ^ p1))
      else None)"

text \<open>\<open>m_jacobian.transpose() * grad\<close>: the combination of the two rows with the entries of \<open>grad\<close>.\<close>

definition jacobian_transpose_times :: "VectorRd \<times> VectorRd \<Rightarrow> Vector2d \<Rightarrow> VectorRd" where
  "jacobian_transpose_times J g = plus3 (scale3 (fst g) (fst J)) (scale3 (snd g) (snd J))"

definition face_gradient :: "MonomialScalarBasisFace \<Rightarrow> nat \<Rightarrow> VectorRd \<Rightarrow> VectorRd option" where
  "face_gradient B i x =
     (if i < length (mf_powers B) then
        (case (face_coordinate_transform B x, mf_powers B ! i) of
           ((y0, y1), (p0, p1)) \<Rightarrow>
             Some (jacobian_transpose_times (m_jacobian B)
               ((if p0 = 0 then 0 else real p0 * y0 ^ (p0 - 1) * y1 ^ p1),
                (if p1 = 0 then 0 else y0 ^ p0 * real p1 * y1 ^ (p1 - 1)))))
      else None)"

definition face_curl :: "MonomialScalarBasisFace \<Rightarrow> nat \<Rightarrow> VectorRd \<Rightarrow> VectorRd option" where
  "face_curl B i x = map_option (\<lambda>g. cross g (m_nF B)) (face_gradient B i x)"

subsection \<open>Edge\<close>

record MonomialScalarBasisEdge =
  me_degree :: nat
  m_xE :: VectorRd
  m_hE :: real
  m_tE :: VectorRd

definition MonomialScalarBasisEdge :: "Edge \<Rightarrow> nat \<Rightarrow> MonomialScalarBasisEdge" where
  "MonomialScalarBasisEdge E degree =
     \<lparr> me_degree = degree, m_xE = edge_center_mass E, m_hE = edge_diam E,
       m_tE = edge_tangent E \<rparr>"

text \<open>
  Modelled from the spec: \<open>dimension()\<close> of the edge basis (declared in basis.hpp) is
  \<open>m + 1\<close> for degree \<open>m\<close>.
\<close>

definition edge_dimension :: "MonomialScalarBasisEdge \<Rightarrow> nat" where
  "edge_dimension B = me_degree B + 1"

text \<open>
  Modelled from the spec: \<open>_coordinate_transform\<close> of the edge basis (declared in basis.hpp)
  is the scalar projection of \<open>x - centerOfMass\<close> onto the unit tangent, divided by the
  edge diameter.
\<close>

definition edge_coordinate_transform :: "MonomialScalarBasisEdge \<Rightarrow> VectorRd \<Rightarrow> real" where
  "edge_coordinate_transform B x = dot (minus3 x (m_xE B)) (m_tE B) / m_hE B"

definition edge_function :: "MonomialScalarBasisEdge \<Rightarrow> nat \<Rightarrow> VectorRd \<Rightarrow> real" where
  "edge_function B i x = edge_coordinate_transform B x ^ i"

definition edge_gradient :: "MonomialScalarBasisEdge \<Rightarrow> nat \<Rightarrow> VectorRd \<Rightarrow> VectorRd" where
  "edge_gradient B i x =
     scale3 (if i = 0 then 0 else real i * edge_coordinate_transform B x ^ (i - 1) / m_hE B)
       (m_tE B)"

subsection \<open>The enumeration as the specification words it\<close>

text \<open>
  Total degree \<open>l\<close> from 0 to \<open>m\<close>, first exponent \<open>i\<close> from 0 to \<open>l\<close>, second exponent
  \<open>j\<close> from 0 to \<open>l - i\<close>, emitting \<open>(i, j, l - i - j)\<close> for a cell; for a face the
  second exponent is determined and \<open>(i, l - i)\<close> is emitted once per \<open>i\<close>.
\<close>

definition spec_cell_tuples :: "nat \<Rightarrow> VectorZd list" where
  "spec_cell_tuples m =
     concat (map (\<lambda>l. concat (map (\<lambda>i. map (\<lambda>j. (i, j, l - i - j)) [0..<Suc (l - i)])
                                   [0..<Suc l]))
                 [0..<Suc m])"

definition spec_face_tuples :: "nat \<Rightarrow> Vector2i list" where
  "spec_face_tuples m = concat (map (\<lambda>l. map (\<lambda>i. (i, l - i)) [0..<Suc l]) [0..<Suc m])"

section \<open>Arrays, matrices and failures\<close>

text \<open>
  A failed \<open>assert\<close> of the source and an out-of-range coefficient access of an Eigen
  matrix or vector both abort the program; they are kept apart, and the second records the
  row and column (for a vector: the start and length) that were asked for. Assigning a vector
  of another size to a segment fails as well. The asserts are taken as compiled in (a build
  without \<open>NDEBUG\<close>), for the source's and for Eigen's.
\<close>

datatype error = AssertionFailed | IndexOutOfRange nat nat | SizeMismatch nat nat

definition bindE :: "error + 'a \<Rightarrow> ('a \<Rightarrow> error + 'b) \<Rightarrow> error + 'b" where
  "bindE m f = (case m of Inl e \<Rightarrow> Inl e | Inr v \<Rightarrow> f v)"

text \<open>
  A counted \<open>for\<close> loop over the listed indices whose body may fail: the first failure
  ends the loop.
\<close>

fun for_loop :: "nat list \<Rightarrow> (nat \<Rightarrow> 's \<Rightarrow> error + 's) \<Rightarrow> 's \<Rightarrow> error + 's" where
  "for_loop [] body s = Inr s"
| "for_loop (i # is) body s = bindE (body i s) (for_loop is body)"

text \<open>
  \<open>boost::multi_array<T, 2>\<close>: the two extents and the element at each index pair. The
  functions below read \<open>B[i][iqn]\<close> only under loop bounds that the asserts have compared
  with the extents.
\<close>

record 'a multi_array =
  shape0 :: nat
  shape1 :: nat
  elem :: "nat \<Rightarrow> nat \<Rightarrow> 'a"

record QuadratureNode =
  node_x :: real
  node_y :: real
  node_z :: real
  node_w :: real

type_synonym QuadratureRule = "QuadratureNode list"

text \<open>\<open>Eigen::MatrixXd\<close> with checked coefficient access.\<close>

record MatrixXd =
  rows :: nat
  cols :: nat
  coeffs :: "nat \<Rightarrow> nat \<Rightarrow> real"

definition MatrixXd_Zero :: "nat \<Rightarrow> nat \<Rightarrow> MatrixXd" where
  "MatrixXd_Zero r c = \<lparr> rows = r, cols = c, coeffs = (\<lambda>i j. 0) \<rparr>"

definition coeff :: "MatrixXd \<Rightarrow> nat \<Rightarrow> nat \<Rightarrow> error + real" where
  "coeff M i j =
     (if i < rows M \<and> j < cols M then Inr (coeffs M i j) else Inl (IndexOutOfRange i j))"

definition coeff_assign :: "MatrixXd \<Rightarrow> nat \<Rightarrow> nat \<Rightarrow> real \<Rightarrow> error + MatrixXd" where
  "coeff_assign M i j v =
     (if i < rows M \<and> j < cols M
      then Inr (M\<lparr> coeffs := (coeffs M)(i := (coeffs M i)(j := v)) \<rparr>)
      else Inl (IndexOutOfRange i j))"

definition transpose_matrix :: "MatrixXd \<Rightarrow> MatrixXd" where
  "transpose_matrix M = \<lparr> rows = cols M, cols = rows M, coeffs = (\<lambda>i j. coeffs M j i) \<rparr>"

text \<open>Coefficientwise product and the sum of an \<open>Eigen::ArrayXd\<close>.\<close>

definition array_times :: "real list \<Rightarrow> real list \<Rightarrow> real list" where
  "array_times a b = map2 (*) a b"

definition array_sum :: "real list \<Rightarrow> real" where
  "array_sum a = sum_list a"

section \<open>Gram matrices (basis.cpp)\<close>

definition dimspace :: nat where
  "dimspace = 3"

text \<open>\<open>ek\<close>: the zero vector with entry \<open>k\<close> set to 1.\<close>

definition unit_vector :: "nat \<Rightarrow> VectorRd" where
  "unit_vector k = (if k = 0 then (1, 0, 0) else if k = 1 then (0, 1, 0) else (0, 0, 1))"

text \<open>Vector-valued \<open>B1\<close>, scalar \<open>B2\<close> tensorialised over the ambient axes.\<close>

definition compute_gram_matrix_vd ::
  "VectorRd multi_array \<Rightarrow> real multi_array \<Rightarrow> QuadratureRule \<Rightarrow> error + MatrixXd" where
  "compute_gram_matrix_vd B1 B2 qr =
     (if \<not> (length qr = shape1 B1 \<and> length qr = shape1 B2) then Inl AssertionFailed
      else
        for_loop [0..<shape0 B1] (\<lambda>i M.
          for_loop [0..<dimspace] (\<lambda>k M.
            let ek = unit_vector k in
            for_loop [0..<shape0 B2] (\<lambda>j M.
              for_loop [0..<length qr] (\<lambda>iqn M.
                bindE (coeff M i (k * shape0 B2 + j)) (\<lambda>v.
                  coeff_assign M i (k * shape0 B2 + j)
                    (v + node_w (qr ! iqn) * dot (elem B1 i iqn) ek * elem B2 j iqn)))
              M)
            M)
          M)
        (MatrixXd_Zero (shape0 B1) (dimspace * shape0 B2)))"

text \<open>Scalar-valued \<open>B1\<close> and \<open>B2\<close>.\<close>

definition compute_gram_matrix_dd ::
  "real multi_array \<Rightarrow> real multi_array \<Rightarrow> QuadratureRule \<Rightarrow> nat \<Rightarrow> nat \<Rightarrow> string
     \<Rightarrow> error + MatrixXd" where
  "compute_gram_matrix_dd B1 B2 qr nrows ncols symflag =
     (if \<not> (length qr = shape1 B1 \<and> length qr = shape1 B2) then Inl AssertionFailed
      else if \<not> (nrows \<le> shape0 B1 \<and> ncols \<le> shape0 B2) then Inl AssertionFailed
      else
        let qr_weights = map node_w qr in
        for_loop [0..<nrows] (\<lambda>i M.
          let jcut = (if symflag = ''sym'' then i else 0) in
          bindE
            (for_loop [0..<jcut] (\<lambda>j M.
               bindE (coeff M j i) (\<lambda>v. coeff_assign M i j v))
             M)
            (for_loop [jcut..<ncols] (\<lambda>j M.
               let B1i = map (elem B1 i) [0..<shape1 B1];
                   B2j = map (elem B2 j) [0..<shape1 B1]
               in coeff_assign M i j (array_sum (array_times (array_times qr_weights B1i) B2j)))))
        (MatrixXd_Zero nrows ncols))"

text \<open>The overload for the complete families.\<close>

definition compute_gram_matrix_dd_full ::
  "real multi_array \<Rightarrow> real multi_array \<Rightarrow> QuadratureRule \<Rightarrow> string \<Rightarrow> error + MatrixXd" where
  "compute_gram_matrix_dd_full B1 B2 qr symflag =
     compute_gram_matrix_dd B1 B2 qr (shape0 B1) (shape0 B2) symflag"

text \<open>
  Vector-valued \<open>B1\<close> and \<open>B2\<close>. The array of pointwise dot products starts as zeros and is
  filled node by node.
\<close>

definition dot_array ::
  "VectorRd multi_array \<Rightarrow> VectorRd multi_array \<Rightarrow> nat \<Rightarrow> nat \<Rightarrow> nat \<Rightarrow> real list" where
  "dot_array B1 B2 n i j =
     fold (\<lambda>iqn a. a[iqn := dot (elem B1 i iqn) (elem B2 j iqn)]) [0..<n] (replicate n 0)"

definition compute_gram_matrix_vv ::
  "VectorRd multi_array \<Rightarrow> VectorRd multi_array \<Rightarrow> QuadratureRule \<Rightarrow> nat \<Rightarrow> nat \<Rightarrow> string
     \<Rightarrow> error + MatrixXd" where
  "compute_gram_matrix_vv B1 B2 qr nrows ncols symflag =
     (if \<not> (length qr = shape1 B1 \<and> length qr = shape1 B2) then Inl AssertionFailed
      else if \<not> (nrows \<le> shape0 B1 \<and> ncols \<le> shape0 B2) then Inl AssertionFailed
      else
        let qr_weights = map node_w qr in
        for_loop [0..<nrows] (\<lambda>i M.
          let jcut = (if symflag = ''sym'' then i else 0) in
          bindE
            (for_loop [0..<jcut] (\<lambda>j M.
               bindE (coeff M j i) (\<lambda>v. coeff_assign M i j v))
             M)
            (for_loop [jcut..<ncols] (\<lambda>j M.
               let B1i_dot_B2j = dot_array B1 B2 (length qr) i j
               in coeff_assign M i j (array_sum (array_times qr_weights B1i_dot_B2j)))))
        (MatrixXd_Zero nrows ncols))"

definition compute_gram_matrix_vv_full ::
  "VectorRd multi_array \<Rightarrow> VectorRd multi_array \<Rightarrow> QuadratureRule \<Rightarrow> string
     \<Rightarrow> error + MatrixXd" where
  "compute_gram_matrix_vv_full B1 B2 qr symflag =
     compute_gram_matrix_vv B1 B2 qr (shape0 B1) (shape0 B2) symflag"

subsection \<open>The entries as the specification words them\<close>

text \<open>
  The sum over the quadrature nodes of the weight times the product of the two samples
  (scalar-scalar), their dot product (vector-vector), or the component along axis \<open>k\<close> of the
  first sample times the second (vector-scalar).
\<close>

definition gram_entry_dd :: "real multi_array \<Rightarrow> real multi_array \<Rightarrow> QuadratureRule \<Rightarrow> nat \<Rightarrow> nat \<Rightarrow> real" where
  "gram_entry_dd B1 B2 qr i j =
     (\<Sum>q\<leftarrow>[0..<length qr]. node_w (qr ! q) * (elem B1 i q * elem B2 j q))"

definition gram_entry_vv :: "VectorRd multi_array \<Rightarrow> VectorRd multi_array \<Rightarrow> QuadratureRule \<Rightarrow> nat \<Rightarrow> nat \<Rightarrow> real" where
  "gram_entry_vv B1 B2 qr i j =
     (\<Sum>q\<leftarrow>[0..<length qr]. node_w (qr ! q) * dot (elem B1 i q) (elem B2 j q))"

definition gram_entry_vd :: "VectorRd multi_array \<Rightarrow> real multi_array \<Rightarrow> QuadratureRule \<Rightarrow> nat \<Rightarrow> nat \<Rightarrow> nat \<Rightarrow> real" where
  "gram_entry_vd B1 B2 qr i k j =
     (\<Sum>q\<leftarrow>[0..<length qr]. node_w (qr ! q) * (dot (elem B1 i q) (unit_vector k) * elem B2 j q))"

subsection \<open>The loop nest of the two symmetric-capable overloads, over any entry function\<close>

definition gram_row ::
  "(nat \<Rightarrow> nat \<Rightarrow> real) \<Rightarrow> nat \<Rightarrow> string \<Rightarrow> nat \<Rightarrow> MatrixXd \<Rightarrow> error + MatrixXd" where
  "gram_row G ncols symflag i M =
     (let jcut = (if symflag = ''sym'' then i else 0) in
      bindE
        (for_loop [0..<jcut] (\<lambda>j M. bindE (coeff M j i) (\<lambda>v. coeff_assign M i j v)) M)
        (for_loop [jcut..<ncols] (\<lambda>j M. coeff_assign M i j (G i j))))"

text \<open>
  The matrix after the first \<open>k\<close> rows have been processed: below the diagonal the
  symmetric mode holds the transposed entry.
\<close>

definition gram_filled ::
  "(nat \<Rightarrow> nat \<Rightarrow> real) \<Rightarrow> nat \<Rightarrow> nat \<Rightarrow> string \<Rightarrow> nat \<Rightarrow> MatrixXd" where
  "gram_filled G nrows ncols symflag k =
     \<lparr> rows = nrows, cols = ncols,
       coeffs = (\<lambda>i j. if i < k \<and> j < ncols
                        then (if symflag = ''sym'' \<and> j < i then G j i else G i j) else 0) \<rparr>"

subsection \<open>Intermediate matrices of the loops\<close>

text \<open>Row \<open>i\<close> after the copy step has filled its first \<open>n\<close> columns from column \<open>i\<close>.\<close>

definition copied :: "MatrixXd \<Rightarrow> nat \<Rightarrow> nat \<Rightarrow> MatrixXd" where
  "copied M i n =
     M\<lparr> coeffs := (\<lambda>i' j. if i' = i \<and> j < n then coeffs M j i else coeffs M i' j) \<rparr>"

text \<open>Row \<open>i\<close> after the columns from \<open>a\<close> up to \<open>n\<close> have been assigned their entry.\<close>

definition computed :: "(nat \<Rightarrow> nat \<Rightarrow> real) \<Rightarrow> MatrixXd \<Rightarrow> nat \<Rightarrow> nat \<Rightarrow> nat \<Rightarrow> MatrixXd" where
  "computed G M i a n =
     M\<lparr> coeffs := (\<lambda>i' j. if i' = i \<and> a \<le> j \<and> j < n then G i j else coeffs M i' j) \<rparr>"

text \<open>One coefficient increased by \<open>s\<close>; a stretch of columns of row \<open>i\<close> increased by \<open>T\<close>.\<close>

definition accumulated :: "MatrixXd \<Rightarrow> nat \<Rightarrow> nat \<Rightarrow> real \<Rightarrow> MatrixXd" where
  "accumulated M i c s = M\<lparr> coeffs := (coeffs M)(i := (coeffs M i)(c := coeffs M i c + s)) \<rparr>"

definition block_added :: "(nat \<Rightarrow> real) \<Rightarrow> MatrixXd \<Rightarrow> nat \<Rightarrow> nat \<Rightarrow> nat \<Rightarrow> MatrixXd" where
  "block_added T M i lo hi =
     M\<lparr> coeffs := (\<lambda>i' c. if i' = i \<and> lo \<le> c \<and> c < hi then coeffs M i c + T c
                         else coeffs M i' c) \<rparr>"

text \<open>
  The vector-scalar result after the first \<open>k\<close> rows: column \<open>c\<close> belongs to the axis
  \<open>c div n\<close> and to the member \<open>c mod n\<close> of the second family, \<open>n\<close> being its size.
\<close>

definition vd_entry ::
  "VectorRd multi_array \<Rightarrow> real multi_array \<Rightarrow> QuadratureRule \<Rightarrow> nat \<Rightarrow> nat \<Rightarrow> real" where
  "vd_entry B1 B2 qr i c = gram_entry_vd B1 B2 qr i (c div shape0 B2) (c mod shape0 B2)"

definition vd_filled ::
  "VectorRd multi_array \<Rightarrow> real multi_array \<Rightarrow> QuadratureRule \<Rightarrow> nat \<Rightarrow> MatrixXd" where
  "vd_filled B1 B2 qr k =
     \<lparr> rows = shape0 B1, cols = dimspace * shape0 B2,
       coeffs = (\<lambda>i c. if i < k \<and> c < dimspace * shape0 B2 then vd_entry B1 B2 qr i c else 0) \<rparr>"

subsection \<open>Sample data\<close>

text \<open>The coefficient \<open>(i, j)\<close> of a returned matrix.\<close>

definition entry_of :: "error + MatrixXd \<Rightarrow> nat \<Rightarrow> nat \<Rightarrow> error + real" where
  "entry_of r i j = bindE r (\<lambda>M. coeff M i j)"

text \<open>
  A two-node rule with weights 1 and 2, two scalar families of two members and a vector
  family of two members, each sampled at the two nodes.
\<close>

definition ex_qr :: QuadratureRule where
  "ex_qr = [\<lparr> node_x = 0, node_y = 0, node_z = 0, node_w = 1 \<rparr>,
            \<lparr> node_x = 1, node_y = 0, node_z = 0, node_w = 2 \<rparr>]"

definition ex_B1 :: "real multi_array" where
  "ex_B1 = \<lparr> shape0 = 2, shape1 = 2, elem = (\<lambda>i q. [[1, 2], [3, 4]] ! i ! q) \<rparr>"

definition ex_B2 :: "real multi_array" where
  "ex_B2 = \<lparr> shape0 = 2, shape1 = 2, elem = (\<lambda>i q. [[1, 1], [1, 0]] ! i ! q) \<rparr>"

definition ex_V :: "VectorRd multi_array" where
  "ex_V = \<lparr> shape0 = 2, shape1 = 2,
            elem = (\<lambda>i q. [[(1, 0, 0), (0, 1, 0)], [(1, 1, 0), (0, 0, 2)]] ! i ! q) \<rparr>"

section \<open>HybridCore (hybridcore.hpp)\<close>

subsection \<open>Vectors of unknowns\<close>

text \<open>\<open>Eigen::VectorXd\<close> with checked coefficient and segment access.\<close>

type_synonym VectorXd = "real list"

definition VectorXd_Zero :: "nat \<Rightarrow> VectorXd" where
  "VectorXd_Zero n = replicate n 0"

definition vec_coeff :: "VectorXd \<Rightarrow> nat \<Rightarrow> error + real" where
  "vec_coeff X i = (if i < length X then Inr (X ! i) else Inl (IndexOutOfRange i 0))"

definition vec_assign :: "VectorXd \<Rightarrow> nat \<Rightarrow> real \<Rightarrow> error + VectorXd" where
  "vec_assign X i v = (if i < length X then Inr (X[i := v]) else Inl (IndexOutOfRange i 0))"

definition segment :: "VectorXd \<Rightarrow> nat \<Rightarrow> nat \<Rightarrow> error + VectorXd" where
  "segment X start n =
     (if start + n \<le> length X then Inr (take n (drop start X))
      else Inl (IndexOutOfRange start n))"

definition segment_assign :: "VectorXd \<Rightarrow> nat \<Rightarrow> nat \<Rightarrow> VectorXd \<Rightarrow> error + VectorXd" where
  "segment_assign X start n U =
     (if \<not> start + n \<le> length X then Inl (IndexOutOfRange start n)
      else if length U \<noteq> n then Inl (SizeMismatch n (length U))
      else Inr (take start X @ U @ drop (start + n) X))"

subsection \<open>The mesh and the collaborators\<close>

text \<open>
  The mesh, reduced to what the functions below read: for every cell its centre of mass and
  its faces, each face with its global index and centre of mass; and the number of faces.
\<close>

record FaceOfCell =
  global_index :: nat
  fc_center_mass :: VectorRd

record CellOfMesh =
  cm_center_mass :: VectorRd
  cm_faces :: "FaceOfCell list"

record Mesh =
  mesh_cells :: "CellOfMesh list"
  n_faces :: nat

definition n_cells :: "Mesh \<Rightarrow> nat" where
  "n_cells m = length (mesh_cells m)"

text \<open>
  What the header uses without defining it: the quadrature generator, the member functions
  \<open>basis_quad\<close>, \<open>gram_matrix\<close>, \<open>compute_weights\<close>, \<open>cell_basis\<close> and \<open>face_basis\<close>
  (implemented outside the header), and Eigen's \<open>ldlt().solve\<close>. They are parameters of the
  model. \<open>basis_quad\<close> returns the values \<open>phi_quad[i](iqn)\<close>; the string is its first
  argument (\<open>cell\<close> or \<open>face\<close>).
\<close>

record Collaborators =
  generate_quadrature_rule_cell :: "nat \<Rightarrow> nat \<Rightarrow> QuadratureRule"
  generate_quadrature_rule_face :: "nat \<Rightarrow> nat \<Rightarrow> QuadratureRule"
  basis_quad :: "string \<Rightarrow> nat \<Rightarrow> QuadratureRule \<Rightarrow> nat \<Rightarrow> nat \<Rightarrow> nat \<Rightarrow> real"
  gram_matrix ::
    "(nat \<Rightarrow> nat \<Rightarrow> real) \<Rightarrow> (nat \<Rightarrow> nat \<Rightarrow> real) \<Rightarrow> nat \<Rightarrow> nat \<Rightarrow> QuadratureRule \<Rightarrow> bool \<Rightarrow> MatrixXd"
  ldlt_solve :: "MatrixXd \<Rightarrow> VectorXd \<Rightarrow> VectorXd"
  compute_weights :: "nat \<Rightarrow> VectorXd"
  cell_basis :: "nat \<Rightarrow> nat \<Rightarrow> real \<Rightarrow> real \<Rightarrow> real \<Rightarrow> real"
  face_basis :: "nat \<Rightarrow> nat \<Rightarrow> real \<Rightarrow> real \<Rightarrow> real \<Rightarrow> real"

subsection \<open>The class\<close>

record HybridCore =
  mesh_ptr :: Mesh
  hc_K :: nat
  hc_L :: int
  hc_Ldeg :: nat
  nlocal_cell_dofs :: nat
  nlocal_face_dofs :: nat
  ntotal_cell_dofs :: nat
  ntotal_face_dofs :: nat
  ntotal_dofs :: nat

text \<open>
  Modelled from the spec: \<open>dim_Pcell\<close> and \<open>dim_Pface\<close> (implemented outside the header)
  are the numbers of monomials of total degree at most \<open>m\<close> in three and in two variables.
\<close>

definition dim_Pcell :: "nat \<Rightarrow> nat" where
  "dim_Pcell m = (m + 1) * (m + 2) * (m + 3) div 6"

definition dim_Pface :: "nat \<Rightarrow> nat" where
  "dim_Pface m = (m + 1) * (m + 2) div 2"

text \<open>
  Modelled from the spec: the constructor (implemented outside the header). \<open>_Ldeg\<close> is
  \<open>L\<close>, but 0 when \<open>L\<close> is \<open>-1\<close>; the local counts are the cell dimension for \<open>_Ldeg\<close> and
  the face dimension for \<open>K\<close>; the totals are the local counts times the numbers of cells
  and faces, and their sum.
\<close>

definition HybridCore :: "Mesh \<Rightarrow> nat \<Rightarrow> int \<Rightarrow> HybridCore" where
  "HybridCore m K L =
     (let Ldeg = nat (max L 0) in
      \<lparr> mesh_ptr = m, hc_K = K, hc_L = L, hc_Ldeg = Ldeg,
        nlocal_cell_dofs = dim_Pcell Ldeg,
        nlocal_face_dofs = dim_Pface K,
        ntotal_cell_dofs = n_cells m * dim_Pcell Ldeg,
        ntotal_face_dofs = n_faces m * dim_Pface K,
        ntotal_dofs = n_cells m * dim_Pcell Ldeg + n_faces m * dim_Pface K \<rparr>)"

subsection \<open>Integration helpers\<close>

text \<open>
  The evaluator is called for its effect; it is modelled as a function that takes the state
  it acts on and returns the new one.
\<close>

definition quadrature_over_cell ::
  "HybridCore \<Rightarrow> Collaborators \<Rightarrow> nat \<Rightarrow> (nat \<Rightarrow> real \<Rightarrow> real \<Rightarrow> real \<Rightarrow> real \<Rightarrow> 's \<Rightarrow> 's) \<Rightarrow> 's
     \<Rightarrow> error + 's" where
  "quadrature_over_cell hc env iT f s =
     (if \<not> iT < n_cells (mesh_ptr hc) then Inl AssertionFailed
      else
        let quadT = generate_quadrature_rule_cell env iT (2 * hc_Ldeg hc + 2) in
        for_loop [0..<length quadT] (\<lambda>iqn s.
          Inr (f iqn (node_x (quadT ! iqn)) (node_y (quadT ! iqn)) (node_z (quadT ! iqn))
                 (node_w (quadT ! iqn)) s))
        s)"

definition quadrature_over_face ::
  "HybridCore \<Rightarrow> Collaborators \<Rightarrow> nat \<Rightarrow> (nat \<Rightarrow> real \<Rightarrow> real \<Rightarrow> real \<Rightarrow> real \<Rightarrow> 's \<Rightarrow> 's) \<Rightarrow> 's
     \<Rightarrow> error + 's" where
  "quadrature_over_face hc env iF f s =
     (if \<not> iF < n_faces (mesh_ptr hc) then Inl AssertionFailed
      else
        let quadF = generate_quadrature_rule_face env iF (2 * hc_K hc + 2) in
        for_loop [0..<length quadF] (\<lambda>iqn s.
          Inr (f iqn (node_x (quadF ! iqn)) (node_y (quadF ! iqn)) (node_z (quadF ! iqn))
                 (node_w (quadF ! iqn)) s))
        s)"

definition integrate_over_cell ::
  "HybridCore \<Rightarrow> Collaborators \<Rightarrow> nat \<Rightarrow> (real \<Rightarrow> real \<Rightarrow> real \<Rightarrow> real) \<Rightarrow> error + real" where
  "integrate_over_cell hc env iT f =
     (if \<not> iT < n_cells (mesh_ptr hc) then Inl AssertionFailed
      else quadrature_over_cell hc env iT (\<lambda>iQN x y z w ans. ans + w * f x y z) 0)"

definition integrate_over_face ::
  "HybridCore \<Rightarrow> Collaborators \<Rightarrow> nat \<Rightarrow> (real \<Rightarrow> real \<Rightarrow> real \<Rightarrow> real) \<Rightarrow> error + real" where
  "integrate_over_face hc env iF f =
     (if \<not> iF < n_faces (mesh_ptr hc) then Inl AssertionFailed
      else quadrature_over_face hc env iF (\<lambda>iQN x y z w ans. ans + w * f x y z) 0)"

subsection \<open>Interpolation\<close>

text \<open>
  The vector of the integrals of \<open>f\<close> against the basis functions: it starts as zeros and
  every entry accumulates over the quadrature nodes. The indices stay below the size.
\<close>

definition load_vector ::
  "nat \<Rightarrow> QuadratureRule \<Rightarrow> (nat \<Rightarrow> nat \<Rightarrow> real) \<Rightarrow> (real \<Rightarrow> real \<Rightarrow> real \<Rightarrow> real) \<Rightarrow> VectorXd" where
  "load_vector n quad phi_quad f =
     fold (\<lambda>i b.
        fold (\<lambda>iqn b.
           b[i := b ! i + node_w (quad ! iqn) * phi_quad i iqn
                     * f (node_x (quad ! iqn)) (node_y (quad ! iqn)) (node_z (quad ! iqn))])
          [0..<length quad] b)
       [0..<n] (VectorXd_Zero n)"

text \<open>The projection on one face and in one cell, up to the solution of the local system.\<close>

definition face_projection ::
  "HybridCore \<Rightarrow> Collaborators \<Rightarrow> (real \<Rightarrow> real \<Rightarrow> real \<Rightarrow> real) \<Rightarrow> nat \<Rightarrow> nat \<Rightarrow> VectorXd" where
  "face_projection hc env f doe iF =
     (let quadF = generate_quadrature_rule_face env iF doe;
          phiF_quadF = basis_quad env ''face'' iF quadF (hc_K hc);
          MF = gram_matrix env phiF_quadF phiF_quadF (nlocal_face_dofs hc) (nlocal_face_dofs hc)
                 quadF True;
          bF = load_vector (nlocal_face_dofs hc) quadF phiF_quadF f
      in ldlt_solve env MF bF)"

definition cell_projection ::
  "HybridCore \<Rightarrow> Collaborators \<Rightarrow> (real \<Rightarrow> real \<Rightarrow> real \<Rightarrow> real) \<Rightarrow> nat \<Rightarrow> nat \<Rightarrow> VectorXd" where
  "cell_projection hc env f doe iT =
     (let quadT = generate_quadrature_rule_cell env iT doe;
          phiT_quadT = basis_quad env ''cell'' iT quadT (hc_Ldeg hc);
          MT = gram_matrix env phiT_quadT phiT_quadT (nlocal_cell_dofs hc) (nlocal_cell_dofs hc)
                 quadT True;
          bT = load_vector (nlocal_cell_dofs hc) quadT phiT_quadT f
      in ldlt_solve env MT bT)"

text \<open>The rescaling of the weights of cell \<open>iT\<close>, and the accumulation into its slot.\<close>

definition rescale_weights ::
  "Collaborators \<Rightarrow> nat \<Rightarrow> CellOfMesh \<Rightarrow> VectorXd \<Rightarrow> error + VectorXd" where
  "rescale_weights env iT cell barycoefT =
     (case cm_center_mass cell of (xTx, xTy, xTz) \<Rightarrow>
        let phiT_cst = cell_basis env iT 0 xTx xTy xTz in
        for_loop [0..<length (cm_faces cell)] (\<lambda>ilF barycoefT.
          case fc_center_mass (cm_faces cell ! ilF) of (xFx, xFy, xFz) \<Rightarrow>
            let iF = global_index (cm_faces cell ! ilF);
                phiF_cst = face_basis env iF 0 xFx xFy xFz
            in bindE (vec_coeff barycoefT ilF) (\<lambda>c.
                 vec_assign barycoefT ilF (c * (phiF_cst / phiT_cst))))
        barycoefT)"

definition average_faces ::
  "HybridCore \<Rightarrow> nat \<Rightarrow> CellOfMesh \<Rightarrow> VectorXd \<Rightarrow> VectorXd \<Rightarrow> error + VectorXd" where
  "average_faces hc iT cell barycoefT XTF =
     bindE (vec_assign XTF iT 0) (\<lambda>XTF.
       for_loop [0..<length (cm_faces cell)] (\<lambda>ilF XTF.
         let iF = global_index (cm_faces cell ! ilF) in
         bindE (vec_coeff barycoefT ilF) (\<lambda>c.
         bindE (vec_coeff XTF (ntotal_cell_dofs hc + iF)) (\<lambda>v.
         bindE (vec_coeff XTF iT) (\<lambda>a.
           vec_assign XTF iT (a + c * v)))))
       XTF)"

definition interpolate ::
  "HybridCore \<Rightarrow> Collaborators \<Rightarrow> (real \<Rightarrow> real \<Rightarrow> real \<Rightarrow> real) \<Rightarrow> nat \<Rightarrow> error + VectorXd" where
  "interpolate hc env f doe =
     bindE
       (for_loop [0..<n_faces (mesh_ptr hc)] (\<lambda>iF XTF.
          let UF = face_projection hc env f doe iF in
          segment_assign XTF (ntotal_cell_dofs hc + iF * nlocal_face_dofs hc)
            (nlocal_face_dofs hc) UF)
        (VectorXd_Zero (ntotal_dofs hc)))
       (for_loop [0..<n_cells (mesh_ptr hc)] (\<lambda>iT XTF.
          let cell = mesh_cells (mesh_ptr hc) ! iT;
              UT = cell_projection hc env f doe iT;
              offset_T = iT * nlocal_cell_dofs hc
          in bindE (segment_assign XTF offset_T (nlocal_cell_dofs hc) UT) (\<lambda>XTF.
               if hc_L hc = - 1 then
                 bindE (rescale_weights env iT cell (compute_weights env iT)) (\<lambda>barycoefT.
                   average_faces hc iT cell barycoefT XTF)
               else Inr XTF)))"

subsection \<open>The projection as the specification words it\<close>

text \<open>
  The load vector \<open>b_i\<close>, the sum over the quadrature nodes of weight times basis value times
  the value of \<open>f\<close> at the node.
\<close>

definition spec_load_vector ::
  "nat \<Rightarrow> QuadratureRule \<Rightarrow> (nat \<Rightarrow> nat \<Rightarrow> real) \<Rightarrow> (real \<Rightarrow> real \<Rightarrow> real \<Rightarrow> real) \<Rightarrow> VectorXd" where
  "spec_load_vector n quad phi_quad f =
     map (\<lambda>i. \<Sum>q\<leftarrow>[0..<length quad].
              node_w (quad ! q) * phi_quad i q
                * f (node_x (quad ! q)) (node_y (quad ! q)) (node_z (quad ! q)))
         [0..<n]"

text \<open>The solution of the local system of face \<open>iF\<close> and of cell \<open>iT\<close>.\<close>

definition spec_face_block ::
  "HybridCore \<Rightarrow> Collaborators \<Rightarrow> (real \<Rightarrow> real \<Rightarrow> real \<Rightarrow> real) \<Rightarrow> nat \<Rightarrow> nat \<Rightarrow> VectorXd" where
  "spec_face_block hc env f doe iF =
     ldlt_solve env
       (gram_matrix env
          (basis_quad env ''face'' iF (generate_quadrature_rule_face env iF doe) (hc_K hc))
          (basis_quad env ''face'' iF (generate_quadrature_rule_face env iF doe) (hc_K hc))
          (nlocal_face_dofs hc) (nlocal_face_dofs hc) (generate_quadrature_rule_face env iF doe) True)
       (spec_load_vector (nlocal_face_dofs hc) (generate_quadrature_rule_face env iF doe)
          (basis_quad env ''face'' iF (generate_quadrature_rule_face env iF doe) (hc_K hc)) f)"

definition spec_cell_block ::
  "HybridCore \<Rightarrow> Collaborators \<Rightarrow> (real \<Rightarrow> real \<Rightarrow> real \<Rightarrow> real) \<Rightarrow> nat \<Rightarrow> nat \<Rightarrow> VectorXd" where
  "spec_cell_block hc env f doe iT =
     ldlt_solve env
       (gram_matrix env
          (basis_quad env ''cell'' iT (generate_quadrature_rule_cell env iT doe) (hc_Ldeg hc))
          (basis_quad env ''cell'' iT (generate_quadrature_rule_cell env iT doe) (hc_Ldeg hc))
          (nlocal_cell_dofs hc) (nlocal_cell_dofs hc) (generate_quadrature_rule_cell env iT doe) True)
       (spec_load_vector (nlocal_cell_dofs hc) (generate_quadrature_rule_cell env iT doe)
          (basis_quad env ''cell'' iT (generate_quadrature_rule_cell env iT doe) (hc_Ldeg hc)) f)"

text \<open>
  What is asked of the collaborators: the local solver returns as many coefficients as the
  matrix has columns, and \<open>gram_matrix\<close> has the requested dimensions.
\<close>

definition solver_sized :: "Collaborators \<Rightarrow> bool" where
  "solver_sized env \<longleftrightarrow>
     (\<forall>M b. length (ldlt_solve env M b) = cols M)
     \<and> (\<forall>p q r c quad s. rows (gram_matrix env p q r c quad s) = r
                          \<and> cols (gram_matrix env p q r c quad s) = c)"

text \<open>
  What is asked of the mesh and the weights when \<open>L = -1\<close>: the faces of a cell have global
  indices below the number of faces, and \<open>compute_weights\<close> has one weight per face of the cell.
\<close>

definition faces_indexed :: "Mesh \<Rightarrow> bool" where
  "faces_indexed m \<longleftrightarrow>
     (\<forall>cell \<in> set (mesh_cells m). \<forall>fc \<in> set (cm_faces cell). global_index fc < n_faces m)"

definition weights_sized :: "Mesh \<Rightarrow> Collaborators \<Rightarrow> bool" where
  "weights_sized m env \<longleftrightarrow>
     (\<forall>iT < n_cells m. length (compute_weights env iT) = length (cm_faces (mesh_cells m ! iT)))"

text \<open>Entry \<open>i\<close> of the face part of the vector: entry \<open>i mod n\<close> of the block of face \<open>i div n\<close>.\<close>

definition face_part ::
  "HybridCore \<Rightarrow> Collaborators \<Rightarrow> (real \<Rightarrow> real \<Rightarrow> real \<Rightarrow> real) \<Rightarrow> nat \<Rightarrow> nat \<Rightarrow> real" where
  "face_part hc env f doe i =
     spec_face_block hc env f doe (i div nlocal_face_dofs hc) ! (i mod nlocal_face_dofs hc)"

text \<open>
  The value the degenerate case leaves in the slot of cell \<open>iT\<close>: the sum over the faces of
  the cell of the rescaled weight times the entry of the face part at the face's global index.
\<close>

definition rescaled_weight :: "HybridCore \<Rightarrow> Collaborators \<Rightarrow> nat \<Rightarrow> nat \<Rightarrow> real" where
  "rescaled_weight hc env iT ilF =
     (let cell = mesh_cells (mesh_ptr hc) ! iT; fc = cm_faces cell ! ilF in
      case (cm_center_mass cell, fc_center_mass fc) of ((xTx, xTy, xTz), (xFx, xFy, xFz)) \<Rightarrow>
        compute_weights env iT ! ilF
          * (face_basis env (global_index fc) 0 xFx xFy xFz / cell_basis env iT 0 xTx xTy xTz))"

definition averaged_slot ::
  "HybridCore \<Rightarrow> Collaborators \<Rightarrow> (real \<Rightarrow> real \<Rightarrow> real \<Rightarrow> real) \<Rightarrow> nat \<Rightarrow> nat \<Rightarrow> real" where
  "averaged_slot hc env f doe iT =
     (\<Sum>ilF\<leftarrow>[0..<length (cm_faces (mesh_cells (mesh_ptr hc) ! iT))].
        rescaled_weight hc env iT ilF
          * face_part hc env f doe (global_index (cm_faces (mesh_cells (mesh_ptr hc) ! iT) ! ilF)))"

text \<open>Entry \<open>i\<close> of the cell part of the vector that \<open>interpolate\<close> returns.\<close>

definition cell_part ::
  "HybridCore \<Rightarrow> Collaborators \<Rightarrow> (real \<Rightarrow> real \<Rightarrow> real \<Rightarrow> real) \<Rightarrow> nat \<Rightarrow> nat \<Rightarrow> real" where
  "cell_part hc env f doe i =
     (if hc_L hc = - 1 then averaged_slot hc env f doe i
      else spec_cell_block hc env f doe (i div nlocal_cell_dofs hc) ! (i mod nlocal_cell_dofs hc))"

text \<open>The sum over the nodes of a rule of weight times the value of \<open>f\<close> at the point.\<close>

definition spec_integral :: "QuadratureRule \<Rightarrow> (real \<Rightarrow> real \<Rightarrow> real \<Rightarrow> real) \<Rightarrow> real" where
  "spec_integral quad f =
     (\<Sum>nd\<leftarrow>quad. node_w nd * f (node_x nd) (node_y nd) (node_z nd))"

text \<open>
  The cell slot of the degenerate case as the specification words it: the sum over the faces
  of the cell of the rescaled weight times the first entry of the block of that face.
\<close>

definition spec_averaged_slot ::
  "HybridCore \<Rightarrow> Collaborators \<Rightarrow> (real \<Rightarrow> real \<Rightarrow> real \<Rightarrow> real) \<Rightarrow> nat \<Rightarrow> nat \<Rightarrow> real" where
  "spec_averaged_slot hc env f doe iT =
     (\<Sum>ilF\<leftarrow>[0..<length (cm_faces (mesh_cells (mesh_ptr hc) ! iT))].
        rescaled_weight hc env iT ilF
          * spec_face_block hc env f doe
              (global_index (cm_faces (mesh_cells (mesh_ptr hc) ! iT) ! ilF)) ! 0)"

subsection \<open>A sample mesh and sample collaborators\<close>

text \<open>
  One cell with centre \<open>(6, 0, 0)\<close> between two square faces of side 2 with centres
  \<open>(5, 0, 0)\<close> and \<open>(7, 0, 0)\<close>. The face rule has the four nodes \<open>(\<plusminus>1, \<plusminus>1)\<close> around the
  centre with weight 1/4; the face basis is \<open>1, s, t\<close> in the coordinates relative to the
  centre, orthonormal for that rule. The cell rule of degree \<open>d\<close> has the nodes
  \<open>(6 + k, 0, 0)\<close>, \<open>k = 0..d\<close>, with equal weights of sum 1; the cell basis is the constant
  1. The Gram matrix is the weighted sum of products, and the solver divides by the diagonal,
  which solves the systems of these orthonormal families. The geometric weights of the cell
  are 1/4 and 3/4.
\<close>

definition ex_mesh :: Mesh where
  "ex_mesh =
     \<lparr> mesh_cells =
         [\<lparr> cm_center_mass = (6, 0, 0),
            cm_faces = [\<lparr> global_index = 0, fc_center_mass = (5, 0, 0) \<rparr>,
                        \<lparr> global_index = 1, fc_center_mass = (7, 0, 0) \<rparr>] \<rparr>],
       n_faces = 2 \<rparr>"

definition ex_cell_rule :: "nat \<Rightarrow> nat \<Rightarrow> QuadratureRule" where
  "ex_cell_rule iT d =
     map (\<lambda>k. \<lparr> node_x = 6 + real k, node_y = 0, node_z = 0, node_w = 1 / (real d + 1) \<rparr>)
       [0..<d + 1]"

definition ex_face_rule :: "nat \<Rightarrow> nat \<Rightarrow> QuadratureRule" where
  "ex_face_rule iF d =
     map (\<lambda>(s, t). \<lparr> node_x = 5 + 2 * real iF + s, node_y = t, node_z = 0, node_w = 1 / 4 \<rparr>)
       [(- 1, - 1), (1, - 1), (- 1, 1), (1, 1)]"

definition ex_face_basis :: "nat \<Rightarrow> nat \<Rightarrow> real \<Rightarrow> real \<Rightarrow> real \<Rightarrow> real" where
  "ex_face_basis iF i x y z = [1, x - (5 + 2 * real iF), y] ! i"

definition ex_basis_quad :: "string \<Rightarrow> nat \<Rightarrow> QuadratureRule \<Rightarrow> nat \<Rightarrow> nat \<Rightarrow> nat \<Rightarrow> real" where
  "ex_basis_quad cellface iTF quad degree i iqn =
     (if cellface = ''cell'' then 1
      else ex_face_basis iTF i (node_x (quad ! iqn)) (node_y (quad ! iqn)) (node_z (quad ! iqn)))"

definition ex_gram_matrix ::
  "(nat \<Rightarrow> nat \<Rightarrow> real) \<Rightarrow> (nat \<Rightarrow> nat \<Rightarrow> real) \<Rightarrow> nat \<Rightarrow> nat \<Rightarrow> QuadratureRule \<Rightarrow> bool \<Rightarrow> MatrixXd" where
  "ex_gram_matrix p q r c quad s =
     \<lparr> rows = r, cols = c,
       coeffs = (\<lambda>i j. \<Sum>k\<leftarrow>[0..<length quad]. node_w (quad ! k) * p i k * q j k) \<rparr>"

definition ex_solve :: "MatrixXd \<Rightarrow> VectorXd \<Rightarrow> VectorXd" where
  "ex_solve M b = map (\<lambda>i. b ! i / coeffs M i i) [0..<cols M]"

definition ex_env :: Collaborators where
  "ex_env =
     \<lparr> generate_quadrature_rule_cell = ex_cell_rule,
       generate_quadrature_rule_face = ex_face_rule,
       basis_quad = ex_basis_quad,
       gram_matrix = ex_gram_matrix,
       ldlt_solve = ex_solve,
       compute_weights = (\<lambda>iT. [1 / 4, 3 / 4]),
       cell_basis = (\<lambda>iT i x y z. 1),
       face_basis = ex_face_basis \<rparr>"

definition ex_f :: "real \<Rightarrow> real \<Rightarrow> real \<Rightarrow> real" where
  "ex_f x y z = x"

text \<open>The segment of \<open>n\<close> entries from \<open>start\<close> of a returned vector.\<close>

definition block_of :: "error + VectorXd \<Rightarrow> nat \<Rightarrow> nat \<Rightarrow> error + VectorXd" where
  "block_of r start n = bindE r (\<lambda>X. segment X start n)"

text \<open>An evaluator that records its arguments, in the order of the calls.\<close>

definition record_call ::
  "nat \<Rightarrow> real \<Rightarrow> real \<Rightarrow> real \<Rightarrow> real \<Rightarrow> (nat \<times> real \<times> real \<times> real \<times> real) list
     \<Rightarrow> (nat \<times> real \<times> real \<times> real \<times> real) list" where
  "record_call iqn x y z w calls = calls @ [(iqn, x, y, z, w)]"
section \<open>Properties of the monomial bases\<close>

lemma cell_loop_j_eq:
  "cell_loop_j l i j ps = ps @ map (\<lambda>j. (i, j, l - i - j)) [j..<Suc l - i]"
proof (induction l i j ps rule: cell_loop_j.induct)
  case (1 l i j ps)
  show ?case
  proof (cases "i + j \<le> l")
    case True
    then have "[j..<Suc l - i] = j # [Suc j..<Suc l - i]"
      by (simp add: upt_conv_Cons)
    with True 1 show ?thesis by (subst cell_loop_j.simps) simp
  next
    case False
    then show ?thesis by (subst cell_loop_j.simps) simp
  qed
qed

lemma cell_loop_i_eq:
  "cell_loop_i l i ps =
     ps @ concat (map (\<lambda>i. map (\<lambda>j. (i, j, l - i - j)) [0..<Suc l - i]) [i..<Suc l])"
proof (induction l i ps rule: cell_loop_i.induct)
  case (1 l i ps)
  show ?case
  proof (cases "i \<le> l")
    case True
    then have "[i..<Suc l] = i # [Suc i..<Suc l]"
      by (simp add: upt_conv_Cons)
    with True 1 show ?thesis by (subst cell_loop_i.simps) (simp add: cell_loop_j_eq)
  next
    case False
    then show ?thesis by (subst cell_loop_i.simps) simp
  qed
qed

lemma cell_loop_l_eq:
  "cell_loop_l m l ps =
     ps @ concat (map (\<lambda>l. concat (map (\<lambda>i. map (\<lambda>j. (i, j, l - i - j)) [0..<Suc l - i]) [0..<Suc l]))
                      [l..<Suc m])"
proof (induction m l ps rule: cell_loop_l.induct)
  case (1 m l ps)
  show ?case
  proof (cases "l \<le> m")
    case True
    then have "[l..<Suc m] = l # [Suc l..<Suc m]"
      by (simp add: upt_conv_Cons)
    with True 1 show ?thesis by (subst cell_loop_l.simps) (simp add: cell_loop_i_eq)
  next
    case False
    then show ?thesis by (subst cell_loop_l.simps) simp
  qed
qed

lemma cell_row_bound:
  "map (\<lambda>i. map (\<lambda>j. (i, j, l - i - j)) [0..<Suc l - i]) [0..<Suc l]
     = map (\<lambda>i. map (\<lambda>j. (i, j, l - i - j)) [0..<Suc (l - i)]) [0..<Suc l]"
proof (rule map_cong)
  fix i assume "i \<in> set [0..<Suc l]"
  then have "Suc l - i = Suc (l - i)" by auto
  then show "map (\<lambda>j. (i, j, l - i - j)) [0..<Suc l - i] = map (\<lambda>j. (i, j, l - i - j)) [0..<Suc (l - i)]"
    by (simp only:)
qed (rule refl)

lemma cell_powers_spec: "mc_powers (MonomialScalarBasisCell T m) = spec_cell_tuples m"
  unfolding MonomialScalarBasisCell_def spec_cell_tuples_def
  by (simp only: cell_loop_l_eq cell_row_bound MonomialScalarBasisCell.simps append_Nil)

lemma face_loop_i_eq:
  "face_loop_i l i ps = ps @ map (\<lambda>i. (i, l - i)) [i..<Suc l]"
proof (induction l i ps rule: face_loop_i.induct)
  case (1 l i ps)
  show ?case
  proof (cases "i \<le> l")
    case True
    then have "[i..<Suc l] = i # [Suc i..<Suc l]"
      by (simp add: upt_conv_Cons)
    with True 1 show ?thesis by (subst face_loop_i.simps) simp
  next
    case False
    then show ?thesis by (subst face_loop_i.simps) simp
  qed
qed

lemma face_loop_l_eq:
  "face_loop_l m l ps = ps @ concat (map (\<lambda>l. map (\<lambda>i. (i, l - i)) [0..<Suc l]) [l..<Suc m])"
proof (induction m l ps rule: face_loop_l.induct)
  case (1 m l ps)
  show ?case
  proof (cases "l \<le> m")
    case True
    then have "[l..<Suc m] = l # [Suc l..<Suc m]"
      by (simp add: upt_conv_Cons)
    with True 1 show ?thesis by (subst face_loop_l.simps) (simp add: face_loop_i_eq)
  next
    case False
    then show ?thesis by (subst face_loop_l.simps) simp
  qed
qed

lemma face_powers_spec: "mf_powers (MonomialScalarBasisFace F m) = spec_face_tuples m"
  unfolding MonomialScalarBasisFace_def spec_face_tuples_def
  by (simp add: face_loop_l_eq)

lemma length_spec_face_tuples: "2 * length (spec_face_tuples m) = (m + 1) * (m + 2)"
  unfolding spec_face_tuples_def
  by (induction m) (simp_all add: length_concat)

lemma cell_row_count:
  "2 * sum_list (map (\<lambda>i. Suc (l - i)) [0..<Suc l]) = (l + 1) * (l + 2)"
proof (induction l)
  case 0
  show ?case by simp
next
  case (Suc l)
  have "[0..<Suc (Suc l)] = 0 # [Suc 0..<Suc (Suc l)]"
    by (rule upt_conv_Cons) simp
  also have "[Suc 0..<Suc (Suc l)] = map Suc [0..<Suc l]"
    by (rule map_Suc_upt [symmetric])
  finally have "[0..<Suc (Suc l)] = 0 # map Suc [0..<Suc l]" .
  then have "sum_list (map (\<lambda>i. Suc (Suc l - i)) [0..<Suc (Suc l)])
      = Suc (Suc l) + sum_list (map (\<lambda>i. Suc (l - i)) [0..<Suc l])"
    by (simp add: comp_def del: upt_Suc)
  with Suc show ?case
    by (simp del: upt_Suc)
qed

lemma length_spec_cell_tuples: "6 * length (spec_cell_tuples m) = (m + 1) * (m + 2) * (m + 3)"
proof (induction m)
  case 0
  show ?case by (simp add: spec_cell_tuples_def)
next
  case (Suc m)
  have step: "length (spec_cell_tuples (Suc m))
      = length (spec_cell_tuples m) + sum_list (map (\<lambda>i. Suc (Suc m - i)) [0..<Suc (Suc m)])"
    unfolding spec_cell_tuples_def
    by (simp add: length_concat comp_def del: upt_Suc) (simp add: comp_def)
  have "6 * length (spec_cell_tuples (Suc m))
      = 6 * length (spec_cell_tuples m) + 3 * (2 * sum_list (map (\<lambda>i. Suc (Suc m - i)) [0..<Suc (Suc m)]))"
    by (simp only: step) simp
  also have "\<dots> = (m + 1) * (m + 2) * (m + 3) + 3 * ((Suc m + 1) * (Suc m + 2))"
    by (simp only: Suc.IH cell_row_count)
  also have "\<dots> = (Suc m + 1) * (Suc m + 2) * (Suc m + 3)"
    by (simp add: algebra_simps)
  finally show ?case .
qed

lemma cell_m1: "spec_cell_tuples 1 = [(0,0,0), (0,0,1), (0,1,0), (1,0,0)]"
  by (simp add: spec_cell_tuples_def)

lemma face_m1: "spec_face_tuples 1 = [(0,0), (0,1), (1,0)]"
  by (simp add: spec_face_tuples_def)


lemma spec_cell_tuples_first:
  "spec_cell_tuples m = (0, 0, 0) # concat (map (\<lambda>l. concat (map (\<lambda>i. map (\<lambda>j. (i, j, l - i - j)) [0..<Suc (l - i)])
                                   [0..<Suc l])) [Suc 0..<Suc m])"
proof -
  have "[0..<Suc m] = 0 # [Suc 0..<Suc m]"
    by (rule upt_conv_Cons) simp
  moreover have "[0..<Suc 0] = [0]" by simp
  ultimately show ?thesis
    unfolding spec_cell_tuples_def by (simp del: upt_Suc)
qed

lemma spec_face_tuples_first:
  "spec_face_tuples m = (0, 0) # concat (map (\<lambda>l. map (\<lambda>i. (i, l - i)) [0..<Suc l]) [Suc 0..<Suc m])"
proof -
  have "[0..<Suc m] = 0 # [Suc 0..<Suc m]"
    by (rule upt_conv_Cons) simp
  moreover have "[0..<Suc 0] = [0]" by simp
  ultimately show ?thesis
    unfolding spec_face_tuples_def by (simp del: upt_Suc)
qed

lemma cell_slot0:
  "0 < length (mc_powers (MonomialScalarBasisCell T m))"
  "mc_powers (MonomialScalarBasisCell T m) ! 0 = (0, 0, 0)"
  by (simp_all add: cell_powers_spec spec_cell_tuples_first del: upt_Suc)

lemma face_slot0:
  "0 < length (mf_powers (MonomialScalarBasisFace F m))"
  "mf_powers (MonomialScalarBasisFace F m) ! 0 = (0, 0)"
  by (simp_all add: face_powers_spec spec_face_tuples_first del: upt_Suc)

text \<open>
  Claim C5. For every degree \<open>m\<close> the cell constructor generates exactly the sequence of
  exponent triples that the specification's enumeration describes, \<open>(m+1)(m+2)(m+3)/6\<close>
  of them; the face constructor generates the specified pairs, \<open>(m+1)(m+2)/2\<close> of them;
  the edge basis has \<open>m+1\<close> slots and slot \<open>i\<close> is the \<open>i\<close>-th power of the local
  coordinate; for degree 1 the cell sequence is (0,0,0), (0,0,1), (0,1,0), (1,0,0) and the
  face sequence is (0,0), (0,1), (1,0).
\<close>

theorem monomial_enumeration:
  "mc_powers (MonomialScalarBasisCell T m) = spec_cell_tuples m
   \<and> length (mc_powers (MonomialScalarBasisCell T m)) = (m + 1) * (m + 2) * (m + 3) div 6
   \<and> mf_powers (MonomialScalarBasisFace F m) = spec_face_tuples m
   \<and> length (mf_powers (MonomialScalarBasisFace F m)) = (m + 1) * (m + 2) div 2
   \<and> edge_dimension (MonomialScalarBasisEdge E m) = m + 1
   \<and> edge_function (MonomialScalarBasisEdge E m) i x
       = edge_coordinate_transform (MonomialScalarBasisEdge E m) x ^ i
   \<and> mc_powers (MonomialScalarBasisCell T 1) = [(0, 0, 0), (0, 0, 1), (0, 1, 0), (1, 0, 0)]
   \<and> mf_powers (MonomialScalarBasisFace F 1) = [(0, 0), (0, 1), (1, 0)]"
proof -
  have c: "length (spec_cell_tuples m) = (m + 1) * (m + 2) * (m + 3) div 6"
    using length_spec_cell_tuples [of m] by linarith
  have f: "length (spec_face_tuples m) = (m + 1) * (m + 2) div 2"
    using length_spec_face_tuples [of m] by linarith
  have e: "edge_dimension (MonomialScalarBasisEdge E m) = m + 1"
    by (simp add: edge_dimension_def MonomialScalarBasisEdge_def)
  show ?thesis
    by (simp only: cell_powers_spec face_powers_spec c f e cell_m1 face_m1 edge_function_def simp_thms)
qed

text \<open>
  Claim C6. For a cell, a face and an edge basis of any degree and at every point \<open>x\<close>, the
  basis function of slot 0 has the value 1 and its gradient is the zero vector.
\<close>

theorem slot0_constant:
  "cell_function (MonomialScalarBasisCell T m) 0 x = Some 1
   \<and> cell_gradient (MonomialScalarBasisCell T m) 0 x = Some Zero3
   \<and> face_function (MonomialScalarBasisFace F m) 0 x = Some 1
   \<and> face_gradient (MonomialScalarBasisFace F m) 0 x = Some Zero3
   \<and> edge_function (MonomialScalarBasisEdge E m) 0 x = 1
   \<and> edge_gradient (MonomialScalarBasisEdge E m) 0 x = Zero3"
proof -
  have c1: "cell_function (MonomialScalarBasisCell T m) 0 x = Some 1"
    using cell_slot0 [of T m] by (simp add: cell_function_def split: prod.splits)
  have c2: "cell_gradient (MonomialScalarBasisCell T m) 0 x = Some Zero3"
    using cell_slot0 [of T m] by (simp add: cell_gradient_def Zero3_def split: prod.splits)
  have f1: "face_function (MonomialScalarBasisFace F m) 0 x = Some 1"
    using face_slot0 [of F m] by (simp add: face_function_def split: prod.splits)
  have f2: "face_gradient (MonomialScalarBasisFace F m) 0 x = Some Zero3"
    using face_slot0 [of F m]
    by (cases "m_jacobian (MonomialScalarBasisFace F m)"; cases "fst (m_jacobian (MonomialScalarBasisFace F m))";
        cases "snd (m_jacobian (MonomialScalarBasisFace F m))")
       (simp add: face_gradient_def Zero3_def jacobian_transpose_times_def split: prod.splits)
  have e1: "edge_function (MonomialScalarBasisEdge E m) 0 x = 1"
    by (simp add: edge_function_def)
  have e2: "edge_gradient (MonomialScalarBasisEdge E m) 0 x = Zero3"
    by (cases "m_tE (MonomialScalarBasisEdge E m)") (simp add: edge_gradient_def Zero3_def)
  from c1 c2 f1 f2 e1 e2 show ?thesis by simp
qed

section \<open>Properties of the Gram matrices\<close>

lemma bindE_simps [simp]:
  "bindE (Inl e) f = Inl e"
  "bindE (Inr v) f = f v"
  by (simp_all add: bindE_def)

lemma for_loop_append:
  "for_loop (xs @ ys) body s = bindE (for_loop xs body s) (for_loop ys body)"
  by (induction xs arbitrary: s) (auto simp: bindE_def split: sum.splits)

lemma for_loop_single: "for_loop [b] body = body b"
  by (rule ext) (simp add: bindE_def split: sum.splits)

lemma for_loop_upt_Suc:
  "a \<le> b \<Longrightarrow> for_loop [a..<Suc b] body s = bindE (for_loop [a..<b] body s) (body b)"
  by (simp add: for_loop_append for_loop_single)

lemma copy_loop:
  assumes "i < rows M" "i < cols M" "n \<le> i"
  shows "for_loop [0..<n] (\<lambda>j M. bindE (coeff M j i) (\<lambda>v. coeff_assign M i j v)) M
           = Inr (copied M i n)"
  using assms(3)
proof (induction n)
  case 0
  show ?case by (simp add: copied_def)
next
  case (Suc n)
  then have IH: "for_loop [0..<n] (\<lambda>j M. bindE (coeff M j i) (\<lambda>v. coeff_assign M i j v)) M
           = Inr (copied M i n)" by simp
  have r: "coeff (copied M i n) n i = Inr (coeffs M n i)"
    using assms Suc.prems by (simp add: coeff_def copied_def)
  have w: "coeff_assign (copied M i n) i n (coeffs M n i) = Inr (copied M i (Suc n))"
    using assms Suc.prems by (auto simp: coeff_assign_def copied_def fun_eq_iff)
  show ?case
    by (simp only: for_loop_upt_Suc [OF le0] IH bindE_simps r w)
qed

lemma compute_loop:
  assumes "i < rows M" "n \<le> cols M"
  shows "for_loop [a..<n] (\<lambda>j M. coeff_assign M i j (G i j)) M = Inr (computed G M i a n)"
  using assms(2)
proof (induction n)
  case 0
  show ?case by (simp add: computed_def)
next
  case (Suc n)
  show ?case
  proof (cases "a \<le> n")
    case True
    have IH: "for_loop [a..<n] (\<lambda>j M. coeff_assign M i j (G i j)) M = Inr (computed G M i a n)"
      using Suc by simp
    have w: "coeff_assign (computed G M i a n) i n (G i n) = Inr (computed G M i a (Suc n))"
      using assms Suc.prems True by (auto simp: coeff_assign_def computed_def fun_eq_iff)
    show ?thesis
      by (simp only: for_loop_upt_Suc [OF True] IH bindE_simps w)
  next
    case False
    then have "computed G M i a (Suc n) = M"
      by (auto simp: computed_def fun_eq_iff)
    with False show ?thesis by simp
  qed
qed

lemma gram_row_ok:
  assumes "i < nrows" "symflag = ''sym'' \<longrightarrow> i = 0 \<or> i < ncols"
  shows "gram_row G ncols symflag i (gram_filled G nrows ncols symflag i)
           = Inr (gram_filled G nrows ncols symflag (Suc i))"
proof (cases "symflag = ''sym'' \<and> 0 < i")
  case True
  then have ic: "i < ncols" using assms by auto
  let ?M = "gram_filled G nrows ncols symflag i"
  have c: "for_loop [0..<i] (\<lambda>j M. bindE (coeff M j i) (\<lambda>v. coeff_assign M i j v)) ?M
      = Inr (copied ?M i i)"
    by (rule copy_loop) (use assms ic in \<open>simp_all add: gram_filled_def\<close>)
  have d: "for_loop [i..<ncols] (\<lambda>j M. coeff_assign M i j (G i j)) (copied ?M i i)
      = Inr (computed G (copied ?M i i) i i ncols)"
    by (rule compute_loop) (use assms in \<open>simp_all add: gram_filled_def copied_def\<close>)
  have e: "computed G (copied ?M i i) i i ncols = gram_filled G nrows ncols symflag (Suc i)"
    using True ic by (auto simp: computed_def copied_def gram_filled_def fun_eq_iff less_Suc_eq)
  have j: "(if symflag = ''sym'' then i else 0) = i" using True by simp
  show ?thesis
    by (simp only: gram_row_def Let_def j c bindE_simps d e)
next
  case False
  let ?M = "gram_filled G nrows ncols symflag i"
  have j: "(if symflag = ''sym'' then i else 0) = 0" using False by auto
  have d: "for_loop [0..<ncols] (\<lambda>j M. coeff_assign M i j (G i j)) ?M
      = Inr (computed G ?M i 0 ncols)"
    by (rule compute_loop) (use assms in \<open>simp_all add: gram_filled_def\<close>)
  have e: "computed G ?M i 0 ncols = gram_filled G nrows ncols symflag (Suc i)"
    using False by (auto simp: computed_def gram_filled_def fun_eq_iff less_Suc_eq)
  have c: "for_loop [0..<0] (\<lambda>j M. bindE (coeff M j i) (\<lambda>v. coeff_assign M i j v)) ?M = Inr ?M"
    by simp
  show ?thesis
    by (simp only: gram_row_def Let_def j c bindE_simps d e)
qed

lemma gram_rows_ok:
  assumes "k \<le> nrows" "symflag = ''sym'' \<longrightarrow> k \<le> max 1 ncols"
  shows "for_loop [0..<k] (gram_row G ncols symflag) (MatrixXd_Zero nrows ncols)
           = Inr (gram_filled G nrows ncols symflag k)"
  using assms
proof (induction k)
  case 0
  show ?case by (simp add: MatrixXd_Zero_def gram_filled_def)
next
  case (Suc k)
  have IH: "for_loop [0..<k] (gram_row G ncols symflag) (MatrixXd_Zero nrows ncols)
           = Inr (gram_filled G nrows ncols symflag k)"
    by (rule Suc.IH) (use Suc.prems in auto)
  have r: "gram_row G ncols symflag k (gram_filled G nrows ncols symflag k)
           = Inr (gram_filled G nrows ncols symflag (Suc k))"
    by (rule gram_row_ok) (use Suc.prems in auto)
  show ?case
    by (simp only: for_loop_upt_Suc [OF le0] IH bindE_simps r)
qed

lemma gram_row_fails:
  assumes "symflag = ''sym''" "0 < i" "ncols \<le> i"
  shows "gram_row G ncols symflag i (gram_filled G nrows ncols symflag i) = Inl (IndexOutOfRange 0 i)"
proof -
  have "[0..<i] = 0 # [Suc 0..<i]"
    using assms by (simp add: upt_conv_Cons)
  then show ?thesis
    using assms by (simp add: gram_row_def coeff_def gram_filled_def)
qed

lemma gram_rows_fail:
  assumes "symflag = ''sym''" "ncols < nrows" "2 \<le> nrows"
  shows "for_loop [0..<nrows] (gram_row G ncols symflag) (MatrixXd_Zero nrows ncols)
           = Inl (IndexOutOfRange 0 (max 1 ncols))"
proof -
  let ?i = "max 1 ncols"
  have lt: "?i < nrows" using assms by auto
  then have split: "[0..<nrows] = [0..<?i] @ ?i # [Suc ?i..<nrows]"
    by (metis le0 upt_add_eq_append upt_conv_Cons le_add_diff_inverse less_imp_le_nat)
  have p: "for_loop [0..<?i] (gram_row G ncols symflag) (MatrixXd_Zero nrows ncols)
           = Inr (gram_filled G nrows ncols symflag ?i)"
    by (rule gram_rows_ok) (use lt in auto)
  have f: "gram_row G ncols symflag ?i (gram_filled G nrows ncols symflag ?i) = Inl (IndexOutOfRange 0 ?i)"
    by (rule gram_row_fails) (use assms in auto)
  show ?thesis
    by (simp only: split for_loop_append p bindE_simps for_loop.simps f)
qed

lemma gram_rows_result:
  "for_loop [0..<nrows] (gram_row G ncols symflag) (MatrixXd_Zero nrows ncols)
     = (if symflag = ''sym'' \<and> ncols < nrows \<and> 2 \<le> nrows
        then Inl (IndexOutOfRange 0 (max 1 ncols))
        else Inr (gram_filled G nrows ncols symflag nrows))"
proof (cases "symflag = ''sym'' \<and> ncols < nrows \<and> 2 \<le> nrows")
  case True
  then show ?thesis by (simp add: gram_rows_fail)
next
  case False
  then have "symflag = ''sym'' \<longrightarrow> nrows \<le> max 1 ncols" by auto
  then have "for_loop [0..<nrows] (gram_row G ncols symflag) (MatrixXd_Zero nrows ncols)
               = Inr (gram_filled G nrows ncols symflag nrows)"
    by (intro gram_rows_ok) simp_all
  with False show ?thesis by simp
qed

lemma weights_as_map: "map node_w qr = map (\<lambda>q. node_w (qr ! q)) [0..<length qr]"
proof -
  have "map (\<lambda>q. node_w (qr ! q)) [0..<length qr] = map node_w (map ((!) qr) [0..<length qr])"
    by (simp only: map_map comp_def)
  also have "\<dots> = map node_w qr"
    by (simp only: map_nth)
  finally show ?thesis by (rule sym)
qed

lemma array_times_maps:
  "array_times (map f xs) (map g xs) = map (\<lambda>x. f x * g x) xs"
  by (induction xs) (simp_all add: array_times_def)

lemma entry_dd:
  assumes "length qr = shape1 B1"
  shows "array_sum (array_times (array_times (map node_w qr) (map (elem B1 i) [0..<shape1 B1]))
                     (map (elem B2 j) [0..<shape1 B1]))
           = gram_entry_dd B1 B2 qr i j"
proof -
  have "map node_w qr = map (\<lambda>q. node_w (qr ! q)) [0..<shape1 B1]"
    using weights_as_map [of qr] assms by simp
  then show ?thesis
    by (simp add: array_times_maps array_sum_def gram_entry_dd_def assms mult.assoc)
qed

lemma fill_loop:
  "k \<le> length xs \<Longrightarrow> fold (\<lambda>q a. a[q := f q]) [0..<k] xs = map f [0..<k] @ drop k xs"
proof (induction k)
  case 0
  show ?case by simp
next
  case (Suc k)
  then have "fold (\<lambda>q a. a[q := f q]) [0..<k] xs = map f [0..<k] @ drop k xs" by simp
  moreover have "(map f [0..<k] @ drop k xs)[k := f k] = map f [0..<k] @ f k # drop (Suc k) xs"
  proof -
    have "drop k xs = xs ! k # drop (Suc k) xs"
      using Suc.prems by (simp add: Cons_nth_drop_Suc)
    then show ?thesis
      by (simp add: list_update_append del: upt_Suc)
  qed
  ultimately show ?case by simp
qed

lemma dot_array_map:
  "dot_array B1 B2 n i j = map (\<lambda>q. dot (elem B1 i q) (elem B2 j q)) [0..<n]"
  by (simp add: dot_array_def fill_loop)

lemma entry_vv:
  "array_sum (array_times (map node_w qr) (dot_array B1 B2 (length qr) i j))
     = gram_entry_vv B1 B2 qr i j"
proof -
  have "map node_w qr = map (\<lambda>q. node_w (qr ! q)) [0..<length qr]"
    by (rule weights_as_map)
  then show ?thesis
    by (simp add: dot_array_map array_times_maps array_sum_def gram_entry_vv_def)
qed

lemma gram_row_fun:
  "gram_row G ncols symflag =
     (\<lambda>i M. bindE
        (for_loop [0..<(if symflag = ''sym'' then i else 0)]
           (\<lambda>j M. bindE (coeff M j i) (\<lambda>v. coeff_assign M i j v)) M)
        (for_loop [(if symflag = ''sym'' then i else 0)..<ncols]
           (\<lambda>j M. coeff_assign M i j (G i j))))"
  by (intro ext) (simp only: gram_row_def Let_def)

lemma compute_gram_matrix_dd_rows:
  assumes "length qr = shape1 B1" "length qr = shape1 B2" "nrows \<le> shape0 B1" "ncols \<le> shape0 B2"
  shows "compute_gram_matrix_dd B1 B2 qr nrows ncols symflag
           = for_loop [0..<nrows] (gram_row (gram_entry_dd B1 B2 qr) ncols symflag)
               (MatrixXd_Zero nrows ncols)"
proof -
  have e: "\<And>i j. array_sum (array_times (array_times (map node_w qr) (map (elem B1 i) [0..<shape1 B1]))
                     (map (elem B2 j) [0..<shape1 B1])) = gram_entry_dd B1 B2 qr i j"
    by (rule entry_dd) (rule assms)
  have c: "\<not> \<not> (length qr = shape1 B1 \<and> length qr = shape1 B2)"
          "\<not> \<not> (nrows \<le> shape0 B1 \<and> ncols \<le> shape0 B2)"
    using assms by simp_all
  show ?thesis
    unfolding compute_gram_matrix_dd_def gram_row_fun Let_def
    by (simp only: c if_False e)
qed

lemma compute_gram_matrix_vv_rows:
  assumes "length qr = shape1 B1" "length qr = shape1 B2" "nrows \<le> shape0 B1" "ncols \<le> shape0 B2"
  shows "compute_gram_matrix_vv B1 B2 qr nrows ncols symflag
           = for_loop [0..<nrows] (gram_row (gram_entry_vv B1 B2 qr) ncols symflag)
               (MatrixXd_Zero nrows ncols)"
proof -
  have c: "\<not> \<not> (length qr = shape1 B1 \<and> length qr = shape1 B2)"
          "\<not> \<not> (nrows \<le> shape0 B1 \<and> ncols \<le> shape0 B2)"
    using assms by simp_all
  show ?thesis
    unfolding compute_gram_matrix_vv_def gram_row_fun Let_def
    by (simp only: c if_False entry_vv)
qed

lemma compute_gram_matrix_dd_result:
  "compute_gram_matrix_dd B1 B2 qr nrows ncols symflag =
     (if \<not> (length qr = shape1 B1 \<and> length qr = shape1 B2) then Inl AssertionFailed
      else if \<not> (nrows \<le> shape0 B1 \<and> ncols \<le> shape0 B2) then Inl AssertionFailed
      else if symflag = ''sym'' \<and> ncols < nrows \<and> 2 \<le> nrows
        then Inl (IndexOutOfRange 0 (max 1 ncols))
      else Inr (gram_filled (gram_entry_dd B1 B2 qr) nrows ncols symflag nrows))"
proof (cases "length qr = shape1 B1 \<and> length qr = shape1 B2")
  case False
  then show ?thesis
    unfolding compute_gram_matrix_dd_def by (simp only: simp_thms if_True)
next
  case q: True
  show ?thesis
  proof (cases "nrows \<le> shape0 B1 \<and> ncols \<le> shape0 B2")
    case False
    with q show ?thesis
      unfolding compute_gram_matrix_dd_def by (simp only: simp_thms if_True if_False)
  next
    case True
    have "compute_gram_matrix_dd B1 B2 qr nrows ncols symflag
           = for_loop [0..<nrows] (gram_row (gram_entry_dd B1 B2 qr) ncols symflag)
               (MatrixXd_Zero nrows ncols)"
      by (rule compute_gram_matrix_dd_rows) (use q True in simp_all)
    with q True show ?thesis
      by (simp add: gram_rows_result)
  qed
qed

lemma compute_gram_matrix_vv_result:
  "compute_gram_matrix_vv B1 B2 qr nrows ncols symflag =
     (if \<not> (length qr = shape1 B1 \<and> length qr = shape1 B2) then Inl AssertionFailed
      else if \<not> (nrows \<le> shape0 B1 \<and> ncols \<le> shape0 B2) then Inl AssertionFailed
      else if symflag = ''sym'' \<and> ncols < nrows \<and> 2 \<le> nrows
        then Inl (IndexOutOfRange 0 (max 1 ncols))
      else Inr (gram_filled (gram_entry_vv B1 B2 qr) nrows ncols symflag nrows))"
proof (cases "length qr = shape1 B1 \<and> length qr = shape1 B2")
  case False
  then show ?thesis
    unfolding compute_gram_matrix_vv_def by (simp only: simp_thms if_True)
next
  case q: True
  show ?thesis
  proof (cases "nrows \<le> shape0 B1 \<and> ncols \<le> shape0 B2")
    case False
    with q show ?thesis
      unfolding compute_gram_matrix_vv_def by (simp only: simp_thms if_True if_False)
  next
    case True
    have "compute_gram_matrix_vv B1 B2 qr nrows ncols symflag
           = for_loop [0..<nrows] (gram_row (gram_entry_vv B1 B2 qr) ncols symflag)
               (MatrixXd_Zero nrows ncols)"
      by (rule compute_gram_matrix_vv_rows) (use q True in simp_all)
    with q True show ?thesis
      by (simp add: gram_rows_result)
  qed
qed

lemma transpose_gram_filled:
  "transpose_matrix (gram_filled G n n ''sym'' n) = gram_filled G n n ''sym'' n"
  by (auto simp: transpose_matrix_def gram_filled_def fun_eq_iff)

lemma acc_loop:
  assumes "i < rows M" "c < cols M"
  shows "for_loop [0..<n] (\<lambda>q M. bindE (coeff M i c) (\<lambda>v. coeff_assign M i c (v + t q))) M
           = Inr (accumulated M i c (sum_list (map t [0..<n])))"
proof (induction n)
  case 0
  show ?case by (simp add: accumulated_def)
next
  case (Suc n)
  let ?s = "sum_list (map t [0..<n])"
  have r: "coeff (accumulated M i c ?s) i c = Inr (coeffs M i c + ?s)"
    using assms by (simp add: coeff_def accumulated_def)
  have w: "coeff_assign (accumulated M i c ?s) i c (coeffs M i c + ?s + t n)
             = Inr (accumulated M i c (sum_list (map t [0..<Suc n])))"
    using assms by (simp add: coeff_assign_def accumulated_def add.assoc)
  show ?case
    by (simp only: for_loop_upt_Suc [OF le0] Suc bindE_simps r w)
qed

lemma block_added_empty: "hi \<le> lo \<Longrightarrow> block_added T M i lo hi = M"
proof -
  assume "hi \<le> lo"
  then have "(\<lambda>i' c. if i' = i \<and> lo \<le> c \<and> c < hi then coeffs M i c + T c else coeffs M i' c)
      = coeffs M"
    by (auto simp: fun_eq_iff)
  then show ?thesis by (simp add: block_added_def)
qed

lemma block_added_dims [simp]:
  "rows (block_added T M i lo hi) = rows M" "cols (block_added T M i lo hi) = cols M"
  by (simp_all add: block_added_def)

lemma block_loop:
  assumes "\<And>j M'. j < n \<Longrightarrow> rows M' = rows M \<Longrightarrow> cols M' = cols M
             \<Longrightarrow> body j M' = Inr (accumulated M' i (lo + j) (T (lo + j)))"
  shows "m \<le> n \<Longrightarrow> for_loop [0..<m] body M = Inr (block_added T M i lo (lo + m))"
proof (induction m)
  case 0
  show ?case by (simp add: block_added_empty)
next
  case (Suc m)
  then have IH: "for_loop [0..<m] body M = Inr (block_added T M i lo (lo + m))" by simp
  have "body m (block_added T M i lo (lo + m))
          = Inr (accumulated (block_added T M i lo (lo + m)) i (lo + m) (T (lo + m)))"
    by (rule assms) (use Suc.prems in simp_all)
  moreover have "accumulated (block_added T M i lo (lo + m)) i (lo + m) (T (lo + m))
          = block_added T M i lo (lo + Suc m)"
    by (auto simp: accumulated_def block_added_def fun_eq_iff)
  ultimately show ?case
    by (simp only: for_loop_upt_Suc [OF le0] IH bindE_simps)
qed

lemma blocks_loop:
  assumes "\<And>k M'. k < K \<Longrightarrow> rows M' = rows M \<Longrightarrow> cols M' = cols M
             \<Longrightarrow> body k M' = Inr (block_added T M' i (k * n) (k * n + n))"
  shows "m \<le> K \<Longrightarrow> for_loop [0..<m] body M = Inr (block_added T M i 0 (m * n))"
proof (induction m)
  case 0
  show ?case by (simp add: block_added_empty)
next
  case (Suc m)
  then have IH: "for_loop [0..<m] body M = Inr (block_added T M i 0 (m * n))" by simp
  have "body m (block_added T M i 0 (m * n))
          = Inr (block_added T (block_added T M i 0 (m * n)) i (m * n) (m * n + n))"
    by (rule assms) (use Suc.prems in simp_all)
  moreover have "block_added T (block_added T M i 0 (m * n)) i (m * n) (m * n + n)
          = block_added T M i 0 (Suc m * n)"
    by (auto simp: block_added_def fun_eq_iff add.commute)
  ultimately show ?case
    by (simp only: for_loop_upt_Suc [OF le0] IH bindE_simps)
qed

lemma vd_column_div: "j < n \<Longrightarrow> (k * n + j) div n = (k::nat)"
  by simp

lemma vd_column_mod: "j < n \<Longrightarrow> (k * n + j) mod n = (j::nat)"
  by simp

lemma vd_inner:
  assumes "i < rows M" "k * shape0 B2 + j < cols M" "j < shape0 B2"
  shows "for_loop [0..<length qr] (\<lambda>iqn M.
            bindE (coeff M i (k * shape0 B2 + j)) (\<lambda>v.
              coeff_assign M i (k * shape0 B2 + j)
                (v + node_w (qr ! iqn) * dot (elem B1 i iqn) (unit_vector k) * elem B2 j iqn))) M
         = Inr (accumulated M i (k * shape0 B2 + j) (vd_entry B1 B2 qr i (k * shape0 B2 + j)))"
proof -
  have "sum_list (map (\<lambda>iqn. node_w (qr ! iqn) * dot (elem B1 i iqn) (unit_vector k) * elem B2 j iqn)
                      [0..<length qr])
          = vd_entry B1 B2 qr i (k * shape0 B2 + j)"
    using assms(3) by (simp add: vd_entry_def gram_entry_vd_def mult.assoc vd_column_div vd_column_mod)
  then show ?thesis
    using acc_loop [OF assms(1,2), of "length qr"
        "\<lambda>iqn. node_w (qr ! iqn) * dot (elem B1 i iqn) (unit_vector k) * elem B2 j iqn"]
    by simp
qed

lemma vd_mid:
  assumes "i < rows M" "k * shape0 B2 + shape0 B2 \<le> cols M"
  shows "for_loop [0..<shape0 B2] (\<lambda>j M.
              for_loop [0..<length qr] (\<lambda>iqn M.
                bindE (coeff M i (k * shape0 B2 + j)) (\<lambda>v.
                  coeff_assign M i (k * shape0 B2 + j)
                    (v + node_w (qr ! iqn) * dot (elem B1 i iqn) (unit_vector k) * elem B2 j iqn)))
              M) M
         = Inr (block_added (vd_entry B1 B2 qr i) M i (k * shape0 B2) (k * shape0 B2 + shape0 B2))"
proof (rule block_loop [OF _ order_refl])
  fix j and M' :: MatrixXd
  assume j: "j < shape0 B2" and d: "rows M' = rows M" "cols M' = cols M"
  show "for_loop [0..<length qr] (\<lambda>iqn M.
                bindE (coeff M i (k * shape0 B2 + j)) (\<lambda>v.
                  coeff_assign M i (k * shape0 B2 + j)
                    (v + node_w (qr ! iqn) * dot (elem B1 i iqn) (unit_vector k) * elem B2 j iqn))) M'
        = Inr (accumulated M' i (k * shape0 B2 + j) (vd_entry B1 B2 qr i (k * shape0 B2 + j)))"
    by (rule vd_inner) (use assms j d in simp_all)
qed

lemma vd_row:
  assumes "i < shape0 B1"
  shows "for_loop [0..<dimspace] (\<lambda>k M.
            let ek = unit_vector k in
            for_loop [0..<shape0 B2] (\<lambda>j M.
              for_loop [0..<length qr] (\<lambda>iqn M.
                bindE (coeff M i (k * shape0 B2 + j)) (\<lambda>v.
                  coeff_assign M i (k * shape0 B2 + j)
                    (v + node_w (qr ! iqn) * dot (elem B1 i iqn) ek * elem B2 j iqn)))
              M)
            M)
          (vd_filled B1 B2 qr i)
         = Inr (vd_filled B1 B2 qr (Suc i))"
proof -
  let ?M = "vd_filled B1 B2 qr i"
  have "for_loop [0..<dimspace] (\<lambda>k M.
            let ek = unit_vector k in
            for_loop [0..<shape0 B2] (\<lambda>j M.
              for_loop [0..<length qr] (\<lambda>iqn M.
                bindE (coeff M i (k * shape0 B2 + j)) (\<lambda>v.
                  coeff_assign M i (k * shape0 B2 + j)
                    (v + node_w (qr ! iqn) * dot (elem B1 i iqn) ek * elem B2 j iqn)))
              M)
            M) ?M
        = Inr (block_added (vd_entry B1 B2 qr i) ?M i 0 (dimspace * shape0 B2))"
  proof (rule blocks_loop [OF _ order_refl])
    fix k and M' :: MatrixXd
    assume k: "k < dimspace" and d: "rows M' = rows ?M" "cols M' = cols ?M"
    have "k * shape0 B2 + shape0 B2 \<le> dimspace * shape0 B2"
      using k by (metis Suc_leI mult_Suc mult_le_mono1 add.commute)
    then show "(let ek = unit_vector k in
            for_loop [0..<shape0 B2] (\<lambda>j M.
              for_loop [0..<length qr] (\<lambda>iqn M.
                bindE (coeff M i (k * shape0 B2 + j)) (\<lambda>v.
                  coeff_assign M i (k * shape0 B2 + j)
                    (v + node_w (qr ! iqn) * dot (elem B1 i iqn) ek * elem B2 j iqn)))
              M) M')
          = Inr (block_added (vd_entry B1 B2 qr i) M' i (k * shape0 B2) (k * shape0 B2 + shape0 B2))"
      unfolding Let_def
      by (intro vd_mid) (use assms d in \<open>simp_all add: vd_filled_def\<close>)
  qed
  moreover have "block_added (vd_entry B1 B2 qr i) ?M i 0 (dimspace * shape0 B2)
        = vd_filled B1 B2 qr (Suc i)"
    by (auto simp: block_added_def vd_filled_def fun_eq_iff less_Suc_eq)
  ultimately show ?thesis by (simp only:)
qed

lemma vd_rows:
  "k \<le> shape0 B1 \<Longrightarrow>
   for_loop [0..<k] (\<lambda>i M.
          for_loop [0..<dimspace] (\<lambda>k M.
            let ek = unit_vector k in
            for_loop [0..<shape0 B2] (\<lambda>j M.
              for_loop [0..<length qr] (\<lambda>iqn M.
                bindE (coeff M i (k * shape0 B2 + j)) (\<lambda>v.
                  coeff_assign M i (k * shape0 B2 + j)
                    (v + node_w (qr ! iqn) * dot (elem B1 i iqn) ek * elem B2 j iqn)))
              M)
            M)
          M)
        (MatrixXd_Zero (shape0 B1) (dimspace * shape0 B2))
     = Inr (vd_filled B1 B2 qr k)"
proof (induction k)
  case 0
  show ?case by (simp add: MatrixXd_Zero_def vd_filled_def)
next
  case (Suc k)
  then have "k < shape0 B1" "k \<le> shape0 B1" by simp_all
  then show ?case
    by (simp only: for_loop_upt_Suc [OF le0] Suc.IH bindE_simps vd_row)
qed

lemma compute_gram_matrix_vd_result:
  "compute_gram_matrix_vd B1 B2 qr =
     (if \<not> (length qr = shape1 B1 \<and> length qr = shape1 B2) then Inl AssertionFailed
      else Inr (vd_filled B1 B2 qr (shape0 B1)))"
  unfolding compute_gram_matrix_vd_def
  by (simp only: vd_rows [OF order_refl])

lemma ex_len [simp]: "length ex_qr = 2" by (simp add: ex_qr_def)
lemma ex_w [simp]: "node_w (ex_qr ! 0) = 1" "node_w (ex_qr ! Suc 0) = 2" by (simp_all add: ex_qr_def)
lemma ex_shapes [simp]:
  "shape0 ex_B1 = 2" "shape1 ex_B1 = 2" "shape0 ex_B2 = 2" "shape1 ex_B2 = 2"
  "shape0 ex_V = 2" "shape1 ex_V = 2"
  by (simp_all add: ex_B1_def ex_B2_def ex_V_def)
lemma upt2 [simp]: "[0..<2] = [0, Suc 0]" by (simp add: upt_rec)



lemma gram_filled_simps [simp]:
  "rows (gram_filled G nrows ncols symflag k) = nrows"
  "cols (gram_filled G nrows ncols symflag k) = ncols"
  by (simp_all add: gram_filled_def)

lemma gram_filled_coeffs:
  "i < k \<Longrightarrow> j < ncols \<Longrightarrow>
   coeffs (gram_filled G nrows ncols symflag k) i j
     = (if symflag = ''sym'' \<and> j < i then G j i else G i j)"
  by (simp add: gram_filled_def)

lemma vd_filled_simps [simp]:
  "rows (vd_filled B1 B2 qr k) = shape0 B1"
  "cols (vd_filled B1 B2 qr k) = dimspace * shape0 B2"
  by (simp_all add: vd_filled_def)

lemma vd_filled_coeffs:
  assumes "i < k" "a < dimspace" "j < shape0 B2"
  shows "coeffs (vd_filled B1 B2 qr k) i (a * shape0 B2 + j) = gram_entry_vd B1 B2 qr i a j"
proof -
  have "a * shape0 B2 + shape0 B2 \<le> dimspace * shape0 B2"
    using assms(2) by (metis Suc_leI mult_Suc mult_le_mono1 add.commute)
  then have "a * shape0 B2 + j < dimspace * shape0 B2"
    using assms(3) by simp
  then show ?thesis
    using assms by (simp add: vd_filled_def vd_entry_def vd_column_div vd_column_mod)
qed

lemma gram_entry_dd_commute: "gram_entry_dd B B qr j i = gram_entry_dd B B qr i j"
  by (simp add: gram_entry_dd_def mult.commute)

lemma dot_commute: "dot u v = dot v u"
  by (cases u; cases v) (simp add: mult.commute)

lemma gram_entry_vv_commute: "gram_entry_vv V V qr j i = gram_entry_vv V V qr i j"
  by (simp add: gram_entry_vv_def dot_commute)

text \<open>
  Claim C3, amended. With matching node counts and row and column counts within the family
  sizes, the scalar-scalar and the vector-vector overload return a matrix of exactly
  \<open>nrows\<close> by \<open>ncols\<close> whose entry \<open>(i, j)\<close> is the weighted sum over the quadrature nodes
  of the product (dot product) of sample \<open>i\<close> of the first family and sample \<open>j\<close> of the
  second, except that in symmetric mode (which needs \<open>nrows \<le> ncols\<close>) an entry below the
  diagonal holds the weighted sum for \<open>(j, i)\<close>; the two agree when both families are the
  same. The vector-scalar overload returns a matrix of \<open>nrows\<close> by \<open>dimspace * ncols\<close>
  whose column \<open>k * ncols + j\<close> holds the weighted sum of the \<open>k\<close>-th component of the first
  sample times the second.
\<close>

theorem gram_matrix_entries:
  "(length qr = shape1 D1 \<and> length qr = shape1 D2 \<and> nrows \<le> shape0 D1 \<and> ncols \<le> shape0 D2
      \<and> (symflag = ''sym'' \<longrightarrow> nrows \<le> ncols) \<longrightarrow>
      (\<exists>M. compute_gram_matrix_dd D1 D2 qr nrows ncols symflag = Inr M
         \<and> rows M = nrows \<and> cols M = ncols
         \<and> (\<forall>i<nrows. \<forall>j<ncols. coeffs M i j =
               (if symflag = ''sym'' \<and> j < i then gram_entry_dd D1 D2 qr j i
                else gram_entry_dd D1 D2 qr i j))))
   \<and> (length qr = shape1 V1 \<and> length qr = shape1 V2 \<and> nrows \<le> shape0 V1 \<and> ncols \<le> shape0 V2
      \<and> (symflag = ''sym'' \<longrightarrow> nrows \<le> ncols) \<longrightarrow>
      (\<exists>M. compute_gram_matrix_vv V1 V2 qr nrows ncols symflag = Inr M
         \<and> rows M = nrows \<and> cols M = ncols
         \<and> (\<forall>i<nrows. \<forall>j<ncols. coeffs M i j =
               (if symflag = ''sym'' \<and> j < i then gram_entry_vv V1 V2 qr j i
                else gram_entry_vv V1 V2 qr i j))))
   \<and> (length qr = shape1 V1 \<and> length qr = shape1 D2 \<longrightarrow>
      (\<exists>M. compute_gram_matrix_vd V1 D2 qr = Inr M
         \<and> rows M = shape0 V1 \<and> cols M = dimspace * shape0 D2
         \<and> (\<forall>i<shape0 V1. \<forall>k<dimspace. \<forall>j<shape0 D2.
               coeffs M i (k * shape0 D2 + j) = gram_entry_vd V1 D2 qr i k j)))
   \<and> gram_entry_dd D1 D1 qr j i = gram_entry_dd D1 D1 qr i j
   \<and> gram_entry_vv V1 V1 qr j i = gram_entry_vv V1 V1 qr i j"
proof (intro conjI impI)
  assume a: "length qr = shape1 D1 \<and> length qr = shape1 D2 \<and> nrows \<le> shape0 D1 \<and> ncols \<le> shape0 D2
      \<and> (symflag = ''sym'' \<longrightarrow> nrows \<le> ncols)"
  then have "compute_gram_matrix_dd D1 D2 qr nrows ncols symflag
      = Inr (gram_filled (gram_entry_dd D1 D2 qr) nrows ncols symflag nrows)"
    by (auto simp: compute_gram_matrix_dd_result)
  then show "\<exists>M. compute_gram_matrix_dd D1 D2 qr nrows ncols symflag = Inr M
         \<and> rows M = nrows \<and> cols M = ncols
         \<and> (\<forall>i<nrows. \<forall>j<ncols. coeffs M i j =
               (if symflag = ''sym'' \<and> j < i then gram_entry_dd D1 D2 qr j i
                else gram_entry_dd D1 D2 qr i j))"
    by (simp add: gram_filled_coeffs)
next
  assume a: "length qr = shape1 V1 \<and> length qr = shape1 V2 \<and> nrows \<le> shape0 V1 \<and> ncols \<le> shape0 V2
      \<and> (symflag = ''sym'' \<longrightarrow> nrows \<le> ncols)"
  then have "compute_gram_matrix_vv V1 V2 qr nrows ncols symflag
      = Inr (gram_filled (gram_entry_vv V1 V2 qr) nrows ncols symflag nrows)"
    by (auto simp: compute_gram_matrix_vv_result)
  then show "\<exists>M. compute_gram_matrix_vv V1 V2 qr nrows ncols symflag = Inr M
         \<and> rows M = nrows \<and> cols M = ncols
         \<and> (\<forall>i<nrows. \<forall>j<ncols. coeffs M i j =
               (if symflag = ''sym'' \<and> j < i then gram_entry_vv V1 V2 qr j i
                else gram_entry_vv V1 V2 qr i j))"
    by (simp add: gram_filled_coeffs)
next
  assume "length qr = shape1 V1 \<and> length qr = shape1 D2"
  then have "compute_gram_matrix_vd V1 D2 qr = Inr (vd_filled V1 D2 qr (shape0 V1))"
    by (simp add: compute_gram_matrix_vd_result)
  then show "\<exists>M. compute_gram_matrix_vd V1 D2 qr = Inr M
         \<and> rows M = shape0 V1 \<and> cols M = dimspace * shape0 D2
         \<and> (\<forall>i<shape0 V1. \<forall>k<dimspace. \<forall>j<shape0 D2.
               coeffs M i (k * shape0 D2 + j) = gram_entry_vd V1 D2 qr i k j)"
    by (simp add: vd_filled_coeffs)
next
  show "gram_entry_dd D1 D1 qr j i = gram_entry_dd D1 D1 qr i j"
    by (rule gram_entry_dd_commute)
next
  show "gram_entry_vv V1 V1 qr j i = gram_entry_vv V1 V1 qr i j"
    by (rule gram_entry_vv_commute)
qed

text \<open>The statement at the sample data.\<close>

theorem gram_matrix_entries_witness:
  "length ex_qr = shape1 ex_B1 \<and> length ex_qr = shape1 ex_B2 \<and> length ex_qr = shape1 ex_V
   \<and> 2 \<le> shape0 ex_B1 \<and> 2 \<le> shape0 ex_B2 \<and> 2 \<le> shape0 ex_V
   \<and> entry_of (compute_gram_matrix_dd ex_B1 ex_B2 ex_qr 2 2 ''nonsym'') 1 0 = Inr 11
   \<and> entry_of (compute_gram_matrix_dd ex_B1 ex_B1 ex_qr 2 2 ''sym'') 1 0 = Inr 19
   \<and> gram_entry_dd ex_B1 ex_B1 ex_qr 1 0 = 19
   \<and> entry_of (compute_gram_matrix_vv ex_V ex_V ex_qr 2 2 ''nonsym'') 1 1 = Inr 10
   \<and> entry_of (compute_gram_matrix_vd ex_V ex_B1 ex_qr) 1 5 = Inr 16"
proof -
  note t = gram_matrix_entries [where qr = ex_qr and nrows = 2 and ncols = 2]
  have "\<exists>M. compute_gram_matrix_dd ex_B1 ex_B2 ex_qr 2 2 ''nonsym'' = Inr M
         \<and> rows M = 2 \<and> cols M = 2 \<and> coeffs M 1 0 = gram_entry_dd ex_B1 ex_B2 ex_qr 1 0"
    using t [where ?D1.0 = ex_B1 and ?D2.0 = ex_B2 and symflag = "''nonsym''", THEN conjunct1]
    by auto
  then have 1: "entry_of (compute_gram_matrix_dd ex_B1 ex_B2 ex_qr 2 2 ''nonsym'') 1 0
             = Inr (gram_entry_dd ex_B1 ex_B2 ex_qr 1 0)"
    by (auto simp: entry_of_def coeff_def)
  have "\<exists>M. compute_gram_matrix_dd ex_B1 ex_B1 ex_qr 2 2 ''sym'' = Inr M
         \<and> rows M = 2 \<and> cols M = 2 \<and> coeffs M 1 0 = gram_entry_dd ex_B1 ex_B1 ex_qr 0 1"
    using t [where ?D1.0 = ex_B1 and ?D2.0 = ex_B1 and symflag = "''sym''", THEN conjunct1]
    by auto
  then have 2: "entry_of (compute_gram_matrix_dd ex_B1 ex_B1 ex_qr 2 2 ''sym'') 1 0
             = Inr (gram_entry_dd ex_B1 ex_B1 ex_qr 0 1)"
    by (auto simp: entry_of_def coeff_def)
  have "\<exists>M. compute_gram_matrix_vv ex_V ex_V ex_qr 2 2 ''nonsym'' = Inr M
         \<and> rows M = 2 \<and> cols M = 2 \<and> coeffs M 1 1 = gram_entry_vv ex_V ex_V ex_qr 1 1"
    using t [where ?V1.0 = ex_V and ?V2.0 = ex_V and symflag = "''nonsym''",
        THEN conjunct2, THEN conjunct1]
    by auto
  then have 3: "entry_of (compute_gram_matrix_vv ex_V ex_V ex_qr 2 2 ''nonsym'') 1 1
             = Inr (gram_entry_vv ex_V ex_V ex_qr 1 1)"
    by (auto simp: entry_of_def coeff_def)
  have "\<exists>M. compute_gram_matrix_vd ex_V ex_B1 ex_qr = Inr M
         \<and> rows M = 2 \<and> cols M = 6
         \<and> (\<forall>i<2. \<forall>k<3. \<forall>j<2. coeffs M i (k * 2 + j) = gram_entry_vd ex_V ex_B1 ex_qr i k j)"
    using t [where ?V1.0 = ex_V and ?D2.0 = ex_B1,
        THEN conjunct2, THEN conjunct2, THEN conjunct1]
    by (simp add: dimspace_def)
  then obtain M where M: "compute_gram_matrix_vd ex_V ex_B1 ex_qr = Inr M" "rows M = 2" "cols M = 6"
      "\<forall>i<2. \<forall>k<3. \<forall>j<2. coeffs M i (k * 2 + j) = gram_entry_vd ex_V ex_B1 ex_qr i k j"
    by blast
  have "(1::nat) < 2" "(2::nat) < 3" by simp_all
  with M(4) have "coeffs M 1 (2 * 2 + 1) = gram_entry_vd ex_V ex_B1 ex_qr 1 2 1"
    by blast
  with M have 4: "entry_of (compute_gram_matrix_vd ex_V ex_B1 ex_qr) 1 5
             = Inr (gram_entry_vd ex_V ex_B1 ex_qr 1 2 1)"
    by (simp add: entry_of_def coeff_def)
  show ?thesis
    unfolding 1 2 3 4
    by (simp add: gram_entry_dd_def gram_entry_vv_def gram_entry_vd_def ex_B1_def ex_B2_def ex_V_def
          unit_vector_def)
qed

text \<open>
  In symmetric mode with two different families the entry \<open>(1, 0)\<close> is the weighted sum for
  \<open>(0, 1)\<close>, here 1, and not the weighted sum for \<open>(1, 0)\<close>, here 11.
\<close>

theorem gram_matrix_entries_counterexample:
  "length ex_qr = shape1 ex_B1 \<and> length ex_qr = shape1 ex_B2
   \<and> 2 \<le> shape0 ex_B1 \<and> 2 \<le> shape0 ex_B2
   \<and> entry_of (compute_gram_matrix_dd ex_B1 ex_B2 ex_qr 2 2 ''sym'') 1 0 = Inr 1
   \<and> gram_entry_dd ex_B1 ex_B2 ex_qr 1 0 = 11"
  by (simp add: compute_gram_matrix_dd_result entry_of_def coeff_def gram_filled_def
        gram_entry_dd_def ex_B1_def ex_B2_def)

subsection \<open>Symmetric mode, preconditions and the flag\<close>

lemma dd_assert_iff:
  "(compute_gram_matrix_dd D1 D2 qr nrows ncols symflag = Inl AssertionFailed)
      = (length qr \<noteq> shape1 D1 \<or> length qr \<noteq> shape1 D2 \<or> shape0 D1 < nrows \<or> shape0 D2 < ncols)"
proof (cases "length qr = shape1 D1 \<and> length qr = shape1 D2")
  case False
  then show ?thesis unfolding compute_gram_matrix_dd_result by auto
next
  case q: True
  show ?thesis
  proof (cases "nrows \<le> shape0 D1 \<and> ncols \<le> shape0 D2")
    case False
    with q show ?thesis unfolding compute_gram_matrix_dd_result by auto
  next
    case True
    with q show ?thesis unfolding compute_gram_matrix_dd_result by auto
  qed
qed

lemma vv_assert_iff:
  "(compute_gram_matrix_vv V1 V2 qr nrows ncols symflag = Inl AssertionFailed)
      = (length qr \<noteq> shape1 V1 \<or> length qr \<noteq> shape1 V2 \<or> shape0 V1 < nrows \<or> shape0 V2 < ncols)"
proof (cases "length qr = shape1 V1 \<and> length qr = shape1 V2")
  case False
  then show ?thesis unfolding compute_gram_matrix_vv_result by auto
next
  case q: True
  show ?thesis
  proof (cases "nrows \<le> shape0 V1 \<and> ncols \<le> shape0 V2")
    case False
    with q show ?thesis unfolding compute_gram_matrix_vv_result by auto
  next
    case True
    with q show ?thesis unfolding compute_gram_matrix_vv_result by auto
  qed
qed

lemma vd_assert_iff:
  "(compute_gram_matrix_vd V1 D2 qr = Inl AssertionFailed)
      = (length qr \<noteq> shape1 V1 \<or> length qr \<noteq> shape1 D2)"
  unfolding compute_gram_matrix_vd_result by simp

lemma dd_sym_square:
  assumes "length qr = shape1 D1" "length qr = shape1 D2" "n \<le> shape0 D1" "n \<le> shape0 D2"
  shows "compute_gram_matrix_dd D1 D2 qr n n ''sym'' = Inr (gram_filled (gram_entry_dd D1 D2 qr) n n ''sym'' n)"
  unfolding compute_gram_matrix_dd_result using assms by simp

lemma vv_sym_square:
  assumes "length qr = shape1 V1" "length qr = shape1 V2" "n \<le> shape0 V1" "n \<le> shape0 V2"
  shows "compute_gram_matrix_vv V1 V2 qr n n ''sym'' = Inr (gram_filled (gram_entry_vv V1 V2 qr) n n ''sym'' n)"
  unfolding compute_gram_matrix_vv_result using assms by simp

lemma dd_sym_range:
  assumes "length qr = shape1 D1" "length qr = shape1 D2" "nrows \<le> shape0 D1" "ncols \<le> shape0 D2"
  shows "compute_gram_matrix_dd D1 D2 qr nrows ncols ''sym'' =
     (if ncols < nrows \<and> 2 \<le> nrows then Inl (IndexOutOfRange 0 (max 1 ncols))
      else Inr (gram_filled (gram_entry_dd D1 D2 qr) nrows ncols ''sym'' nrows))"
  unfolding compute_gram_matrix_dd_result using assms by simp

lemma vv_sym_range:
  assumes "length qr = shape1 V1" "length qr = shape1 V2" "nrows \<le> shape0 V1" "ncols \<le> shape0 V2"
  shows "compute_gram_matrix_vv V1 V2 qr nrows ncols ''sym'' =
     (if ncols < nrows \<and> 2 \<le> nrows then Inl (IndexOutOfRange 0 (max 1 ncols))
      else Inr (gram_filled (gram_entry_vv V1 V2 qr) nrows ncols ''sym'' nrows))"
  unfolding compute_gram_matrix_vv_result using assms by simp

lemma dd_nonsym:
  assumes "symflag \<noteq> ''sym''"
  shows "compute_gram_matrix_dd D1 D2 qr nrows ncols symflag =
     (if \<not> (length qr = shape1 D1 \<and> length qr = shape1 D2) then Inl AssertionFailed
      else if \<not> (nrows \<le> shape0 D1 \<and> ncols \<le> shape0 D2) then Inl AssertionFailed
      else Inr (gram_filled (gram_entry_dd D1 D2 qr) nrows ncols ''nonsym'' nrows))"
proof -
  have "gram_filled (gram_entry_dd D1 D2 qr) nrows ncols symflag nrows
      = gram_filled (gram_entry_dd D1 D2 qr) nrows ncols ''nonsym'' nrows"
    using assms by (auto simp: gram_filled_def fun_eq_iff)
  then show ?thesis
    unfolding compute_gram_matrix_dd_result using assms by simp
qed

lemma vv_nonsym:
  assumes "symflag \<noteq> ''sym''"
  shows "compute_gram_matrix_vv V1 V2 qr nrows ncols symflag =
     (if \<not> (length qr = shape1 V1 \<and> length qr = shape1 V2) then Inl AssertionFailed
      else if \<not> (nrows \<le> shape0 V1 \<and> ncols \<le> shape0 V2) then Inl AssertionFailed
      else Inr (gram_filled (gram_entry_vv V1 V2 qr) nrows ncols ''nonsym'' nrows))"
proof -
  have "gram_filled (gram_entry_vv V1 V2 qr) nrows ncols symflag nrows
      = gram_filled (gram_entry_vv V1 V2 qr) nrows ncols ''nonsym'' nrows"
    using assms by (auto simp: gram_filled_def fun_eq_iff)
  then show ?thesis
    unfolding compute_gram_matrix_vv_result using assms by simp
qed

text \<open>
  Claim C4. In symmetric mode, with equally many rows and columns (in particular over a
  whole family paired with itself), the scalar-scalar and the vector-vector overload return
  a matrix that is equal to its own transpose.
\<close>

theorem gram_sym_equals_transpose:
  "(length qr = shape1 D1 \<and> length qr = shape1 D2 \<and> n \<le> shape0 D1 \<and> n \<le> shape0 D2 \<longrightarrow>
      (\<exists>M. compute_gram_matrix_dd D1 D2 qr n n ''sym'' = Inr M \<and> transpose_matrix M = M))
   \<and> (length qr = shape1 D1 \<longrightarrow>
      (\<exists>M. compute_gram_matrix_dd_full D1 D1 qr ''sym'' = Inr M \<and> transpose_matrix M = M))
   \<and> (length qr = shape1 V1 \<and> length qr = shape1 V2 \<and> n \<le> shape0 V1 \<and> n \<le> shape0 V2 \<longrightarrow>
      (\<exists>M. compute_gram_matrix_vv V1 V2 qr n n ''sym'' = Inr M \<and> transpose_matrix M = M))
   \<and> (length qr = shape1 V1 \<longrightarrow>
      (\<exists>M. compute_gram_matrix_vv_full V1 V1 qr ''sym'' = Inr M \<and> transpose_matrix M = M))"
proof (intro conjI impI)
  assume "length qr = shape1 D1 \<and> length qr = shape1 D2 \<and> n \<le> shape0 D1 \<and> n \<le> shape0 D2"
  then show "\<exists>M. compute_gram_matrix_dd D1 D2 qr n n ''sym'' = Inr M \<and> transpose_matrix M = M"
    by (simp add: dd_sym_square transpose_gram_filled)
next
  assume "length qr = shape1 D1"
  then show "\<exists>M. compute_gram_matrix_dd_full D1 D1 qr ''sym'' = Inr M \<and> transpose_matrix M = M"
    by (simp add: compute_gram_matrix_dd_full_def dd_sym_square transpose_gram_filled)
next
  assume "length qr = shape1 V1 \<and> length qr = shape1 V2 \<and> n \<le> shape0 V1 \<and> n \<le> shape0 V2"
  then show "\<exists>M. compute_gram_matrix_vv V1 V2 qr n n ''sym'' = Inr M \<and> transpose_matrix M = M"
    by (simp add: vv_sym_square transpose_gram_filled)
next
  assume "length qr = shape1 V1"
  then show "\<exists>M. compute_gram_matrix_vv_full V1 V1 qr ''sym'' = Inr M \<and> transpose_matrix M = M"
    by (simp add: compute_gram_matrix_vv_full_def vv_sym_square transpose_gram_filled)
qed

text \<open>The symmetric matrix of the first sample family, and what it is.\<close>

theorem gram_sym_equals_transpose_witness:
  "length ex_qr = shape1 ex_B1
   \<and> entry_of (compute_gram_matrix_dd_full ex_B1 ex_B1 ex_qr ''sym'') 0 1 = Inr 19
   \<and> entry_of (compute_gram_matrix_dd_full ex_B1 ex_B1 ex_qr ''sym'') 1 0 = Inr 19
   \<and> entry_of (map_sum id transpose_matrix (compute_gram_matrix_dd_full ex_B1 ex_B1 ex_qr ''sym'')) 0 1
       = entry_of (compute_gram_matrix_dd_full ex_B1 ex_B1 ex_qr ''sym'') 0 1"
proof -
  have "\<exists>M. compute_gram_matrix_dd_full ex_B1 ex_B1 ex_qr ''sym'' = Inr M \<and> transpose_matrix M = M"
    using gram_sym_equals_transpose [where qr = ex_qr and ?D1.0 = ex_B1, THEN conjunct2, THEN conjunct1]
    by simp
  then have t: "entry_of (map_sum id transpose_matrix (compute_gram_matrix_dd_full ex_B1 ex_B1 ex_qr ''sym'')) 0 1
       = entry_of (compute_gram_matrix_dd_full ex_B1 ex_B1 ex_qr ''sym'') 0 1"
    by auto
  have "entry_of (compute_gram_matrix_dd_full ex_B1 ex_B1 ex_qr ''sym'') 0 1 = Inr 19"
       "entry_of (compute_gram_matrix_dd_full ex_B1 ex_B1 ex_qr ''sym'') 1 0 = Inr 19"
    by (simp_all add: compute_gram_matrix_dd_full_def dd_sym_square entry_of_def
          coeff_def gram_filled_def gram_entry_dd_def ex_B1_def)
  with t show ?thesis by simp
qed

text \<open>
  Claim C7. Every overload ends in the assertion failure exactly when the node count of the
  rule differs from the sampled node count of one of the families or, where row and column
  counts are passed, when one of them exceeds the size of its family; the overloads for
  complete families pass the family sizes, so only the node counts can fail there.
\<close>

theorem gram_assertion_failure:
  "(compute_gram_matrix_vd V1 D2 qr = Inl AssertionFailed)
      = (length qr \<noteq> shape1 V1 \<or> length qr \<noteq> shape1 D2)
   \<and> (compute_gram_matrix_dd D1 D2 qr nrows ncols symflag = Inl AssertionFailed)
      = (length qr \<noteq> shape1 D1 \<or> length qr \<noteq> shape1 D2 \<or> shape0 D1 < nrows \<or> shape0 D2 < ncols)
   \<and> (compute_gram_matrix_vv V1 V2 qr nrows ncols symflag = Inl AssertionFailed)
      = (length qr \<noteq> shape1 V1 \<or> length qr \<noteq> shape1 V2 \<or> shape0 V1 < nrows \<or> shape0 V2 < ncols)
   \<and> (compute_gram_matrix_dd_full D1 D2 qr symflag = Inl AssertionFailed)
      = (length qr \<noteq> shape1 D1 \<or> length qr \<noteq> shape1 D2)
   \<and> (compute_gram_matrix_vv_full V1 V2 qr symflag = Inl AssertionFailed)
      = (length qr \<noteq> shape1 V1 \<or> length qr \<noteq> shape1 V2)"
proof -
  have "(compute_gram_matrix_dd_full D1 D2 qr symflag = Inl AssertionFailed)
      = (length qr \<noteq> shape1 D1 \<or> length qr \<noteq> shape1 D2)"
    unfolding compute_gram_matrix_dd_full_def dd_assert_iff by simp
  moreover have "(compute_gram_matrix_vv_full V1 V2 qr symflag = Inl AssertionFailed)
      = (length qr \<noteq> shape1 V1 \<or> length qr \<noteq> shape1 V2)"
    unfolding compute_gram_matrix_vv_full_def vv_assert_iff by simp
  ultimately show ?thesis
    by (simp only: vd_assert_iff dd_assert_iff vv_assert_iff simp_thms)
qed

text \<open>Three rows asked of a family of two; a rule of two nodes against one sampled node.\<close>

theorem gram_assertion_failure_witness:
  "shape0 ex_B1 < 3 \<and> compute_gram_matrix_dd ex_B1 ex_B2 ex_qr 3 2 ''nonsym'' = Inl AssertionFailed
   \<and> length ex_qr \<noteq> shape1 (ex_B2\<lparr>shape1 := 1\<rparr>)
   \<and> compute_gram_matrix_dd_full ex_B1 (ex_B2\<lparr>shape1 := 1\<rparr>) ex_qr ''nonsym'' = Inl AssertionFailed
   \<and> length ex_qr = shape1 ex_V \<and> length ex_qr = shape1 ex_B1
   \<and> compute_gram_matrix_vd ex_V ex_B1 ex_qr \<noteq> Inl AssertionFailed"
  using gram_assertion_failure [where qr = ex_qr and ?D1.0 = ex_B1 and ?D2.0 = ex_B2
          and nrows = 3 and ncols = 2 and symflag = "''nonsym''", THEN conjunct2, THEN conjunct1]
        gram_assertion_failure [where qr = ex_qr and ?D1.0 = ex_B1 and ?D2.0 = "ex_B2\<lparr>shape1 := 1\<rparr>"
          and symflag = "''nonsym''", THEN conjunct2, THEN conjunct2, THEN conjunct2, THEN conjunct1]
        gram_assertion_failure [where qr = ex_qr and ?V1.0 = ex_V and ?D2.0 = ex_B1, THEN conjunct1]
  by simp

text \<open>
  Claim C9, amended. In symmetric mode, once the asserts have passed, a matrix is returned (every
  access of the copy step is inside the result) exactly when \<open>nrows \<le> ncols\<close> or there are
  fewer than two rows, so that no copy is made; with at least two rows and more rows than
  columns the copy step reads \<open>M(0, i)\<close> for the first row index \<open>i\<close> that is at least 1 and
  at least \<open>ncols\<close>, which lies outside the matrix.
\<close>

theorem gram_sym_copy_range:
  "(length qr = shape1 D1 \<and> length qr = shape1 D2 \<and> nrows \<le> shape0 D1 \<and> ncols \<le> shape0 D2 \<longrightarrow>
      ((\<exists>M. compute_gram_matrix_dd D1 D2 qr nrows ncols ''sym'' = Inr M)
         = (nrows \<le> ncols \<or> nrows < 2))
      \<and> (2 \<le> nrows \<and> ncols < nrows \<longrightarrow>
           compute_gram_matrix_dd D1 D2 qr nrows ncols ''sym''
             = Inl (IndexOutOfRange 0 (max 1 ncols))))
   \<and> (length qr = shape1 V1 \<and> length qr = shape1 V2 \<and> nrows \<le> shape0 V1 \<and> ncols \<le> shape0 V2 \<longrightarrow>
      ((\<exists>M. compute_gram_matrix_vv V1 V2 qr nrows ncols ''sym'' = Inr M)
         = (nrows \<le> ncols \<or> nrows < 2))
      \<and> (2 \<le> nrows \<and> ncols < nrows \<longrightarrow>
           compute_gram_matrix_vv V1 V2 qr nrows ncols ''sym''
             = Inl (IndexOutOfRange 0 (max 1 ncols))))
   \<and> ncols \<le> max 1 ncols"
proof (intro conjI impI)
  assume "length qr = shape1 D1 \<and> length qr = shape1 D2 \<and> nrows \<le> shape0 D1 \<and> ncols \<le> shape0 D2"
  then show "(\<exists>M. compute_gram_matrix_dd D1 D2 qr nrows ncols ''sym'' = Inr M)
         = (nrows \<le> ncols \<or> nrows < 2)"
    by (auto simp: dd_sym_range)
next
  assume "length qr = shape1 D1 \<and> length qr = shape1 D2 \<and> nrows \<le> shape0 D1 \<and> ncols \<le> shape0 D2"
    and "2 \<le> nrows \<and> ncols < nrows"
  then show "compute_gram_matrix_dd D1 D2 qr nrows ncols ''sym'' = Inl (IndexOutOfRange 0 (max 1 ncols))"
    by (simp add: dd_sym_range)
next
  assume "length qr = shape1 V1 \<and> length qr = shape1 V2 \<and> nrows \<le> shape0 V1 \<and> ncols \<le> shape0 V2"
  then show "(\<exists>M. compute_gram_matrix_vv V1 V2 qr nrows ncols ''sym'' = Inr M)
         = (nrows \<le> ncols \<or> nrows < 2)"
    by (auto simp: vv_sym_range)
next
  assume "length qr = shape1 V1 \<and> length qr = shape1 V2 \<and> nrows \<le> shape0 V1 \<and> ncols \<le> shape0 V2"
    and "2 \<le> nrows \<and> ncols < nrows"
  then show "compute_gram_matrix_vv V1 V2 qr nrows ncols ''sym'' = Inl (IndexOutOfRange 0 (max 1 ncols))"
    by (simp add: vv_sym_range)
next
  show "ncols \<le> max 1 ncols" by simp
qed

text \<open>Two rows and one column of the sample families.\<close>

theorem gram_sym_copy_range_witness:
  "length ex_qr = shape1 ex_B1 \<and> length ex_qr = shape1 ex_B2 \<and> 2 \<le> shape0 ex_B1 \<and> 1 \<le> shape0 ex_B2
   \<and> length ex_qr = shape1 ex_V \<and> 2 \<le> shape0 ex_V
   \<and> compute_gram_matrix_dd ex_B1 ex_B2 ex_qr 2 1 ''sym'' = Inl (IndexOutOfRange 0 1)
   \<and> compute_gram_matrix_vv ex_V ex_V ex_qr 2 1 ''sym'' = Inl (IndexOutOfRange 0 1)
   \<and> \<not> isl (compute_gram_matrix_dd ex_B1 ex_B2 ex_qr 2 2 ''sym'')"
  using gram_sym_copy_range [where qr = ex_qr and ?D1.0 = ex_B1 and ?D2.0 = ex_B2
          and nrows = 2 and ncols = 1, THEN conjunct1]
        gram_sym_copy_range [where qr = ex_qr and ?V1.0 = ex_V and ?V2.0 = ex_V
          and nrows = 2 and ncols = 1, THEN conjunct2, THEN conjunct1]
        gram_sym_copy_range [where qr = ex_qr and ?D1.0 = ex_B1 and ?D2.0 = ex_B2
          and nrows = 2 and ncols = 2, THEN conjunct1]
  by auto

text \<open>
  One row and no column in symmetric mode: the copy step makes no access, a matrix of one
  row and no column is returned, and yet there are more rows than columns.
\<close>

theorem gram_sym_copy_range_counterexample:
  "length ex_qr = shape1 ex_B1 \<and> length ex_qr = shape1 ex_B2
   \<and> 1 \<le> shape0 ex_B1 \<and> 0 \<le> shape0 ex_B2
   \<and> compute_gram_matrix_dd ex_B1 ex_B2 ex_qr 1 0 ''sym'' = Inr (MatrixXd_Zero 1 0)
   \<and> compute_gram_matrix_vv ex_V ex_V ex_qr 1 0 ''sym'' = Inr (MatrixXd_Zero 1 0)
   \<and> \<not> (1::nat) \<le> 0"
proof -
  have z: "gram_filled G n 0 ''sym'' n = MatrixXd_Zero n 0" for G n
    by (simp add: gram_filled_def MatrixXd_Zero_def)
  have "compute_gram_matrix_dd ex_B1 ex_B2 ex_qr 1 0 ''sym'' = Inr (MatrixXd_Zero 1 0)"
    by (simp add: dd_sym_range z)
  moreover have "compute_gram_matrix_vv ex_V ex_V ex_qr 1 0 ''sym'' = Inr (MatrixXd_Zero 1 0)"
    by (simp add: vv_sym_range z)
  ultimately show ?thesis by simp
qed

text \<open>
  Claim C10. For every flag other than the exact string \<open>sym\<close> the scalar-scalar and the
  vector-vector overload return what any other such flag returns, and once the asserts have
  passed every entry is the full weighted sum.
\<close>

theorem gram_flag_exact:
  assumes "symflag \<noteq> ''sym''" "symflag' \<noteq> ''sym''"
  shows "compute_gram_matrix_dd D1 D2 qr nrows ncols symflag
           = compute_gram_matrix_dd D1 D2 qr nrows ncols symflag'
       \<and> compute_gram_matrix_vv V1 V2 qr nrows ncols symflag
           = compute_gram_matrix_vv V1 V2 qr nrows ncols symflag'
       \<and> (length qr = shape1 D1 \<and> length qr = shape1 D2 \<and> nrows \<le> shape0 D1 \<and> ncols \<le> shape0 D2 \<longrightarrow>
            (\<exists>M. compute_gram_matrix_dd D1 D2 qr nrows ncols symflag = Inr M
               \<and> (\<forall>i<nrows. \<forall>j<ncols. coeffs M i j = gram_entry_dd D1 D2 qr i j)))
       \<and> (length qr = shape1 V1 \<and> length qr = shape1 V2 \<and> nrows \<le> shape0 V1 \<and> ncols \<le> shape0 V2 \<longrightarrow>
            (\<exists>M. compute_gram_matrix_vv V1 V2 qr nrows ncols symflag = Inr M
               \<and> (\<forall>i<nrows. \<forall>j<ncols. coeffs M i j = gram_entry_vv V1 V2 qr i j)))"
proof -
  have e: "compute_gram_matrix_dd D1 D2 qr nrows ncols symflag
           = compute_gram_matrix_dd D1 D2 qr nrows ncols symflag'"
          "compute_gram_matrix_vv V1 V2 qr nrows ncols symflag
           = compute_gram_matrix_vv V1 V2 qr nrows ncols symflag'"
    by (simp_all only: dd_nonsym [OF assms(1)] dd_nonsym [OF assms(2)]
          vv_nonsym [OF assms(1)] vv_nonsym [OF assms(2)])
  have d: "length qr = shape1 D1 \<and> length qr = shape1 D2 \<and> nrows \<le> shape0 D1 \<and> ncols \<le> shape0 D2 \<longrightarrow>
            (\<exists>M. compute_gram_matrix_dd D1 D2 qr nrows ncols symflag = Inr M
               \<and> (\<forall>i<nrows. \<forall>j<ncols. coeffs M i j = gram_entry_dd D1 D2 qr i j))"
    using assms by (simp add: dd_nonsym gram_filled_coeffs)
  have v: "length qr = shape1 V1 \<and> length qr = shape1 V2 \<and> nrows \<le> shape0 V1 \<and> ncols \<le> shape0 V2 \<longrightarrow>
            (\<exists>M. compute_gram_matrix_vv V1 V2 qr nrows ncols symflag = Inr M
               \<and> (\<forall>i<nrows. \<forall>j<ncols. coeffs M i j = gram_entry_vv V1 V2 qr i j))"
    using assms by (simp add: vv_nonsym gram_filled_coeffs)
  from e d v show ?thesis by (simp only: simp_thms)
qed

text \<open>The flags \<open>Sym\<close>, \<open>symmetric\<close> and the empty string against \<open>nonsym\<close>.\<close>

theorem gram_flag_exact_witness:
  "''Sym'' \<noteq> ''sym'' \<and> ''symmetric'' \<noteq> ''sym'' \<and> '''' \<noteq> ''sym'' \<and> ''nonsym'' \<noteq> ''sym''
   \<and> compute_gram_matrix_dd ex_B1 ex_B2 ex_qr 2 2 ''Sym''
       = compute_gram_matrix_dd ex_B1 ex_B2 ex_qr 2 2 ''nonsym''
   \<and> compute_gram_matrix_dd ex_B1 ex_B2 ex_qr 2 2 ''symmetric''
       = compute_gram_matrix_dd ex_B1 ex_B2 ex_qr 2 2 ''nonsym''
   \<and> compute_gram_matrix_vv ex_V ex_V ex_qr 2 2 ''''
       = compute_gram_matrix_vv ex_V ex_V ex_qr 2 2 ''nonsym''
   \<and> entry_of (compute_gram_matrix_dd ex_B1 ex_B2 ex_qr 2 2 ''Sym'') 1 0 = Inr 11"
proof -
  have n: "''Sym'' \<noteq> ''sym''" "''symmetric'' \<noteq> ''sym''" "'''' \<noteq> ''sym''" "''nonsym'' \<noteq> ''sym''"
    by simp_all
  note a = gram_flag_exact [OF n(1) n(4), where qr = ex_qr and nrows = 2 and ncols = 2
             and ?D1.0 = ex_B1 and ?D2.0 = ex_B2]
  note b = gram_flag_exact [OF n(2) n(4), where qr = ex_qr and nrows = 2 and ncols = 2
             and ?D1.0 = ex_B1 and ?D2.0 = ex_B2, THEN conjunct1]
  note c = gram_flag_exact [OF n(3) n(4), where qr = ex_qr and nrows = 2 and ncols = 2
             and ?V1.0 = ex_V and ?V2.0 = ex_V, THEN conjunct2, THEN conjunct1]
  have "\<exists>M. compute_gram_matrix_dd ex_B1 ex_B2 ex_qr 2 2 ''Sym'' = Inr M
         \<and> (\<forall>i<2. \<forall>j<2. coeffs M i j = gram_entry_dd ex_B1 ex_B2 ex_qr i j)"
    using a [THEN conjunct2, THEN conjunct2, THEN conjunct1] by simp
  then obtain M where M: "compute_gram_matrix_dd ex_B1 ex_B2 ex_qr 2 2 ''Sym'' = Inr M"
      "coeffs M 1 0 = gram_entry_dd ex_B1 ex_B2 ex_qr 1 0"
    by auto
  have "rows M = 2 \<and> cols M = 2"
    using M(1) by (auto simp: dd_nonsym)
  with M have "entry_of (compute_gram_matrix_dd ex_B1 ex_B2 ex_qr 2 2 ''Sym'') 1 0 = Inr 11"
    by (simp add: entry_of_def coeff_def gram_entry_dd_def ex_B1_def ex_B2_def)
  with n a [THEN conjunct1] b c show ?thesis by (simp only: simp_thms)
qed

section \<open>Properties of the hybrid space\<close>

lemma for_loop_invariant:
  assumes "I 0 s0"
    and "\<And>k s. k < n \<Longrightarrow> I k s \<Longrightarrow> \<exists>s'. body k s = Inr s' \<and> I (Suc k) s'"
  shows "\<exists>s'. for_loop [0..<n] body s0 = Inr s' \<and> I n s'"
proof -
  have "m \<le> n \<Longrightarrow> \<exists>s'. for_loop [0..<m] body s0 = Inr s' \<and> I m s'" for m
  proof (induction m)
    case 0
    show ?case using assms(1) by simp
  next
    case (Suc m)
    then obtain s where s: "for_loop [0..<m] body s0 = Inr s" "I m s" by auto
    from Suc.prems have "m < n" by simp
    from assms(2) [OF this s(2)] obtain s' where "body m s = Inr s'" "I (Suc m) s'" by blast
    then show ?case
      by (simp only: for_loop_upt_Suc [OF le0] s(1) bindE_simps) blast
  qed
  then show ?thesis by blast
qed

lemma accumulate_entry:
  "i < length b \<Longrightarrow>
   fold (\<lambda>q b. b[i := b ! i + t q]) [0..<m] b = b[i := b ! i + sum_list (map t [0..<m])]"
proof (induction m)
  case 0
  show ?case by simp
next
  case (Suc m)
  then show ?case by (simp add: add.assoc)
qed

lemma accumulate_all:
  "k \<le> length xs \<Longrightarrow>
   fold (\<lambda>i b. b[i := b ! i + S i]) [0..<k] xs = map (\<lambda>i. xs ! i + S i) [0..<k] @ drop k xs"
proof (induction k)
  case 0
  show ?case by simp
next
  case (Suc k)
  let ?ys = "map (\<lambda>i. xs ! i + S i) [0..<k]"
  have IH: "fold (\<lambda>i b. b[i := b ! i + S i]) [0..<k] xs = ?ys @ drop k xs"
    using Suc by simp
  have d: "drop k xs = xs ! k # drop (Suc k) xs"
    using Suc.prems by (simp add: Cons_nth_drop_Suc)
  have "(?ys @ drop k xs)[k := (?ys @ drop k xs) ! k + S k] = ?ys @ (xs ! k + S k) # drop (Suc k) xs"
    by (simp add: d list_update_append nth_append del: upt_Suc)
  then show ?case
    by (simp add: IH)
qed

lemma load_vector_spec: "load_vector n quad phi f = spec_load_vector n quad phi f"
proof -
  let ?t = "\<lambda>i iqn. node_w (quad ! iqn) * phi i iqn
                     * f (node_x (quad ! iqn)) (node_y (quad ! iqn)) (node_z (quad ! iqn))"
  let ?S = "\<lambda>i. sum_list (map (?t i) [0..<length quad])"
  have inner: "fold (\<lambda>iqn b. b[i := b ! i + ?t i iqn]) [0..<length quad] b = b[i := b ! i + ?S i]"
    if "i < length b" for i and b :: "real list"
    using that by (rule accumulate_entry)
  have len: "length (fold (\<lambda>i b. b[i := b ! i + ?S i]) xs b) = length b" for xs and b :: "real list"
    by (induction xs arbitrary: b) simp_all
  have outer: "fold (\<lambda>i b. fold (\<lambda>iqn b. b[i := b ! i + ?t i iqn]) [0..<length quad] b) xs b
      = fold (\<lambda>i b. b[i := b ! i + ?S i]) xs b"
    if "\<forall>i\<in>set xs. i < length b" for xs and b :: "real list"
    using that
  proof (induction xs arbitrary: b)
    case Nil
    show ?case by simp
  next
    case (Cons x xs)
    then show ?case by (simp add: inner)
  qed
  have "load_vector n quad phi f = fold (\<lambda>i b. b[i := b ! i + ?S i]) [0..<n] (replicate n 0)"
    unfolding load_vector_def VectorXd_Zero_def by (rule outer) simp
  also have "\<dots> = map (\<lambda>i. replicate n 0 ! i + ?S i) [0..<n] @ drop n (replicate n 0)"
    by (rule accumulate_all) simp
  also have "\<dots> = map ?S [0..<n]"
    by simp
  finally show ?thesis
    by (simp add: spec_load_vector_def)
qed

lemma face_projection_spec: "face_projection hc env f doe iF = spec_face_block hc env f doe iF"
  by (simp add: face_projection_def spec_face_block_def Let_def load_vector_spec)

lemma cell_projection_spec: "cell_projection hc env f doe iT = spec_cell_block hc env f doe iT"
  by (simp add: cell_projection_def spec_cell_block_def Let_def load_vector_spec)

lemma segment_assign_ok:
  "start + n \<le> length X \<Longrightarrow> length U = n \<Longrightarrow>
   segment_assign X start n U = Inr (take start X @ U @ drop (start + n) X)"
  by (simp add: segment_assign_def)

lemma segment_assigned_length:
  "start + n \<le> length X \<Longrightarrow> length U = n \<Longrightarrow>
   length (take start X @ U @ drop (start + n) X) = length X"
  by simp

lemma segment_assigned_nth:
  assumes "start + n \<le> length X" "length U = n" "i < length X"
  shows "(take start X @ U @ drop (start + n) X) ! i
           = (if i < start then X ! i else if i < start + n then U ! (i - start) else X ! i)"
  using assms by (auto simp: nth_append min_def)

lemma block_index_less: "a < k \<Longrightarrow> j < n \<Longrightarrow> a * n + j < k * (n::nat)"
proof -
  assume "a < k" "j < n"
  then have "a * n + j < Suc a * n" by simp
  also have "\<dots> \<le> k * n" using \<open>a < k\<close> by (intro mult_le_mono1) simp
  finally show ?thesis .
qed

lemma block_index_div:
  assumes "k * n \<le> i" "i < Suc k * (n::nat)"
  shows "i div n = k" "i mod n = i - k * n"
proof -
  obtain j where j: "i = k * n + j" using assms(1) by (metis le_Suc_ex)
  with assms(2) have "j < n" by simp
  with j show "i div n = k" "i mod n = i - k * n" by simp_all
qed

lemma HybridCore_fields [simp]:
  "mesh_ptr (HybridCore m K L) = m"
  "hc_K (HybridCore m K L) = K"
  "hc_L (HybridCore m K L) = L"
  "hc_Ldeg (HybridCore m K L) = nat (max L 0)"
  "nlocal_cell_dofs (HybridCore m K L) = dim_Pcell (nat (max L 0))"
  "nlocal_face_dofs (HybridCore m K L) = dim_Pface K"
  "ntotal_cell_dofs (HybridCore m K L) = n_cells m * dim_Pcell (nat (max L 0))"
  "ntotal_face_dofs (HybridCore m K L) = n_faces m * dim_Pface K"
  "ntotal_dofs (HybridCore m K L) = n_cells m * dim_Pcell (nat (max L 0)) + n_faces m * dim_Pface K"
  by (simp_all add: HybridCore_def Let_def)

lemma dim_Pface_pos: "0 < dim_Pface K"
proof -
  have "2 \<le> (K + 1) * (K + 2)" by simp
  then show ?thesis unfolding dim_Pface_def by (simp add: div_greater_zero_iff)
qed

lemma dim_Pcell_0 [simp]: "dim_Pcell 0 = 1"
  by (simp add: dim_Pcell_def)

lemma spec_face_block_length:
  "solver_sized env \<Longrightarrow> length (spec_face_block hc env f doe iF) = nlocal_face_dofs hc"
  by (simp add: solver_sized_def spec_face_block_def)

lemma spec_cell_block_length:
  "solver_sized env \<Longrightarrow> length (spec_cell_block hc env f doe iT) = nlocal_cell_dofs hc"
  by (simp add: solver_sized_def spec_cell_block_def)

lemma segment_step:
  assumes len: "c + N * n \<le> length X" and k: "k < N" and U: "length U = n"
    and old: "\<forall>i < k * n. X ! (c + i) = P i"
    and new: "\<forall>j < n. U ! j = P (k * n + j)"
  shows "\<exists>X'. segment_assign X (c + k * n) n U = Inr X' \<and> length X' = length X
           \<and> (\<forall>i < Suc k * n. X' ! (c + i) = P i)
           \<and> (\<forall>i. i < c \<or> (c + Suc k * n \<le> i \<and> i < length X) \<longrightarrow> X' ! i = X ! i)"
proof -
  have "Suc k * n \<le> N * n" using k by (intro mult_le_mono1) simp
  then have fit: "(c + k * n) + n \<le> length X" using len by simp
  let ?X' = "take (c + k * n) X @ U @ drop ((c + k * n) + n) X"
  have r: "segment_assign X (c + k * n) n U = Inr ?X'"
    using fit U by (rule segment_assign_ok)
  have l: "length ?X' = length X"
    using fit U by (rule segment_assigned_length)
  have n: "?X' ! i = (if i < c + k * n then X ! i
                      else if i < (c + k * n) + n then U ! (i - (c + k * n)) else X ! i)"
    if "i < length X" for i
    using fit U that by (rule segment_assigned_nth)
  have a: "?X' ! (c + i) = P i" if i: "i < Suc k * n" for i
  proof (cases "i < k * n")
    case True
    then show ?thesis using n [of "c + i"] old fit by simp
  next
    case False
    then have "U ! (i - k * n) = P i" using new i by (simp add: not_less)
    moreover have "c + i < length X" using i fit by simp
    ultimately show ?thesis using n [of "c + i"] False i by simp
  qed
  have b: "?X' ! i = X ! i" if "i < c \<or> (c + Suc k * n \<le> i \<and> i < length X)" for i
    using that n [of i] fit by auto
  from r l a b show ?thesis by blast
qed

lemma face_part_block:
  "j < nlocal_face_dofs hc \<Longrightarrow>
   face_part hc env f doe (iF * nlocal_face_dofs hc + j) = spec_face_block hc env f doe iF ! j"
  by (simp add: face_part_def)

lemma face_loop_result:
  assumes "solver_sized env" and hc: "hc = HybridCore m K L"
  shows "\<exists>X. for_loop [0..<n_faces m] (\<lambda>iF XTF.
                 let UF = face_projection hc env f doe iF in
                 segment_assign XTF (ntotal_cell_dofs hc + iF * nlocal_face_dofs hc)
                   (nlocal_face_dofs hc) UF)
               (VectorXd_Zero (ntotal_dofs hc)) = Inr X
           \<and> length X = ntotal_dofs hc
           \<and> (\<forall>i < ntotal_face_dofs hc. X ! (ntotal_cell_dofs hc + i) = face_part hc env f doe i)"
proof -
  let ?n = "nlocal_face_dofs hc" and ?c = "ntotal_cell_dofs hc"
  let ?I = "\<lambda>k X. length X = ntotal_dofs hc \<and> (\<forall>i < k * ?n. X ! (?c + i) = face_part hc env f doe i)"
  have tot: "ntotal_dofs hc = ?c + n_faces m * ?n" "ntotal_face_dofs hc = n_faces m * ?n"
    by (simp_all add: hc)
  have "\<exists>X. for_loop [0..<n_faces m] (\<lambda>iF XTF.
                 let UF = face_projection hc env f doe iF in
                 segment_assign XTF (?c + iF * ?n) ?n UF)
               (VectorXd_Zero (ntotal_dofs hc)) = Inr X \<and> ?I (n_faces m) X"
  proof (rule for_loop_invariant)
    show "?I 0 (VectorXd_Zero (ntotal_dofs hc))"
      by (simp add: VectorXd_Zero_def)
  next
    fix k X
    assume k: "k < n_faces m" and I: "?I k X"
    let ?U = "spec_face_block hc env f doe k"
    have "\<exists>X'. segment_assign X (?c + k * ?n) ?n ?U = Inr X' \<and> length X' = length X
           \<and> (\<forall>i < Suc k * ?n. X' ! (?c + i) = face_part hc env f doe i)
           \<and> (\<forall>i. i < ?c \<or> (?c + Suc k * ?n \<le> i \<and> i < length X) \<longrightarrow> X' ! i = X ! i)"
    proof (rule segment_step [OF _ k])
      show "?c + n_faces m * ?n \<le> length X" using I tot by simp
      show "length ?U = ?n" using assms(1) by (rule spec_face_block_length)
      show "\<forall>i<k * ?n. X ! (?c + i) = face_part hc env f doe i" using I by simp
      show "\<forall>j < ?n. ?U ! j = face_part hc env f doe (k * ?n + j)"
        by (simp add: face_part_block)
    qed
    then show "\<exists>X'. (let UF = face_projection hc env f doe k in
                      segment_assign X (?c + k * ?n) ?n UF) = Inr X' \<and> ?I (Suc k) X'"
      using I by (auto simp: Let_def face_projection_spec)
  qed
  then show ?thesis using tot by auto
qed

lemma rescale_weights_result:
  assumes "length bary = length (cm_faces cell)"
  shows "\<exists>b. rescale_weights env iT cell bary = Inr b \<and> length b = length bary
           \<and> (\<forall>ilF < length (cm_faces cell).
                 b ! ilF = (case (cm_center_mass cell, fc_center_mass (cm_faces cell ! ilF)) of
                    ((xTx, xTy, xTz), (xFx, xFy, xFz)) \<Rightarrow>
                      bary ! ilF * (face_basis env (global_index (cm_faces cell ! ilF)) 0 xFx xFy xFz
                                     / cell_basis env iT 0 xTx xTy xTz)))"
proof -
  obtain xTx xTy xTz where xT: "cm_center_mass cell = (xTx, xTy, xTz)"
    by (cases "cm_center_mass cell") auto
  let ?r = "\<lambda>ilF. case fc_center_mass (cm_faces cell ! ilF) of (xFx, xFy, xFz) \<Rightarrow>
              face_basis env (global_index (cm_faces cell ! ilF)) 0 xFx xFy xFz
                / cell_basis env iT 0 xTx xTy xTz"
  let ?I = "\<lambda>k b. length b = length bary \<and> (\<forall>ilF < k. b ! ilF = bary ! ilF * ?r ilF)
                   \<and> (\<forall>ilF. k \<le> ilF \<longrightarrow> b ! ilF = bary ! ilF)"
  let ?body = "\<lambda>ilF barycoefT.
          case fc_center_mass (cm_faces cell ! ilF) of (xFx, xFy, xFz) \<Rightarrow>
            let iF = global_index (cm_faces cell ! ilF);
                phiF_cst = face_basis env iF 0 xFx xFy xFz
            in bindE (vec_coeff barycoefT ilF) (\<lambda>c.
                 vec_assign barycoefT ilF (c * (phiF_cst / cell_basis env iT 0 xTx xTy xTz)))"
  have "\<exists>b. for_loop [0..<length (cm_faces cell)] ?body bary = Inr b \<and> ?I (length (cm_faces cell)) b"
  proof (rule for_loop_invariant)
    show "?I 0 bary" by simp
  next
    fix k and b :: "real list"
    assume k: "k < length (cm_faces cell)" and I: "?I k b"
    obtain xFx xFy xFz where xF: "fc_center_mass (cm_faces cell ! k) = (xFx, xFy, xFz)"
      by (cases "fc_center_mass (cm_faces cell ! k)") auto
    have "?body k b = Inr (b[k := b ! k * ?r k])"
      using k I assms by (simp add: xF vec_coeff_def vec_assign_def Let_def)
    moreover have "?I (Suc k) (b[k := b ! k * ?r k])"
      using k I assms by (auto simp: nth_list_update less_Suc_eq)
    ultimately show "\<exists>b'. ?body k b = Inr b' \<and> ?I (Suc k) b'" by blast
  qed
  then show ?thesis
    by (auto simp: rescale_weights_def xT Let_def split: prod.splits)
qed

lemma average_faces_result:
  assumes "iT < length X" "length bary = length (cm_faces cell)"
    and "\<forall>ilF < length (cm_faces cell).
           ntotal_cell_dofs hc + global_index (cm_faces cell ! ilF) < length X
           \<and> ntotal_cell_dofs hc + global_index (cm_faces cell ! ilF) \<noteq> iT"
  shows "\<exists>X'. average_faces hc iT cell bary X = Inr X' \<and> length X' = length X
           \<and> X' ! iT = (\<Sum>ilF\<leftarrow>[0..<length (cm_faces cell)].
                          bary ! ilF * X ! (ntotal_cell_dofs hc + global_index (cm_faces cell ! ilF)))
           \<and> (\<forall>i. i \<noteq> iT \<longrightarrow> X' ! i = X ! i)"
proof -
  let ?g = "\<lambda>ilF. global_index (cm_faces cell ! ilF)"
  let ?t = "\<lambda>ilF. bary ! ilF * X ! (ntotal_cell_dofs hc + ?g ilF)"
  let ?I = "\<lambda>k Y. length Y = length X \<and> Y ! iT = sum_list (map ?t [0..<k])
                   \<and> (\<forall>i. i \<noteq> iT \<longrightarrow> Y ! i = X ! i)"
  let ?body = "\<lambda>ilF XTF.
         let iF = global_index (cm_faces cell ! ilF) in
         bindE (vec_coeff bary ilF) (\<lambda>c.
         bindE (vec_coeff XTF (ntotal_cell_dofs hc + iF)) (\<lambda>v.
         bindE (vec_coeff XTF iT) (\<lambda>a.
           vec_assign XTF iT (a + c * v))))"
  have "\<exists>X'. for_loop [0..<length (cm_faces cell)] ?body (X[iT := 0]) = Inr X'
          \<and> ?I (length (cm_faces cell)) X'"
  proof (rule for_loop_invariant)
    show "?I 0 (X[iT := 0])" using assms(1) by simp
  next
    fix k and Y :: "real list"
    assume k: "k < length (cm_faces cell)" and I: "?I k Y"
    from assms(3) k have g: "ntotal_cell_dofs hc + ?g k < length X" "ntotal_cell_dofs hc + ?g k \<noteq> iT"
      by simp_all
    then have "Y ! (ntotal_cell_dofs hc + ?g k) = X ! (ntotal_cell_dofs hc + ?g k)"
      using I by simp
    then have "?body k Y = Inr (Y[iT := Y ! iT + ?t k])"
      using k I assms(1,2) g by (simp add: vec_coeff_def vec_assign_def Let_def)
    moreover have "?I (Suc k) (Y[iT := Y ! iT + ?t k])"
      using I assms(1) by simp
    ultimately show "\<exists>Y'. ?body k Y = Inr Y' \<and> ?I (Suc k) Y'" by blast
  qed
  then show ?thesis
    using assms(1) by (auto simp: average_faces_def vec_assign_def)
qed

lemma cell_step:
  assumes sz: "solver_sized env" and hc: "hc = HybridCore m K L"
    and wf: "L = - 1 \<longrightarrow> faces_indexed m \<and> weights_sized m env"
    and k: "k < n_cells m"
    and len: "length X = ntotal_dofs hc"
    and cells: "\<forall>i < k * nlocal_cell_dofs hc. X ! i = cell_part hc env f doe i"
    and faces: "\<forall>i < ntotal_face_dofs hc. X ! (ntotal_cell_dofs hc + i) = face_part hc env f doe i"
  shows "\<exists>X'. (let cell = mesh_cells (mesh_ptr hc) ! k;
                  UT = cell_projection hc env f doe k;
                  offset_T = k * nlocal_cell_dofs hc
              in bindE (segment_assign X offset_T (nlocal_cell_dofs hc) UT) (\<lambda>XTF.
                   if hc_L hc = - 1 then
                     bindE (rescale_weights env k cell (compute_weights env k)) (\<lambda>barycoefT.
                       average_faces hc k cell barycoefT XTF)
                   else Inr XTF)) = Inr X'
          \<and> length X' = ntotal_dofs hc
          \<and> (\<forall>i < Suc k * nlocal_cell_dofs hc. X' ! i = cell_part hc env f doe i)
          \<and> (\<forall>i < ntotal_face_dofs hc. X' ! (ntotal_cell_dofs hc + i) = face_part hc env f doe i)"
proof -
  let ?n = "nlocal_cell_dofs hc" and ?c = "ntotal_cell_dofs hc"
  let ?U = "spec_cell_block hc env f doe k"
  let ?P = "\<lambda>i. if i < k * ?n then cell_part hc env f doe i else ?U ! (i - k * ?n)"
  have tot: "ntotal_dofs hc = ?c + ntotal_face_dofs hc" "?c = n_cells m * ?n"
    "ntotal_face_dofs hc = n_faces m * nlocal_face_dofs hc" "mesh_ptr hc = m" "hc_L hc = L"
    by (simp_all add: hc)
  have "\<exists>X'. segment_assign X (0 + k * ?n) ?n ?U = Inr X' \<and> length X' = length X
           \<and> (\<forall>i < Suc k * ?n. X' ! (0 + i) = ?P i)
           \<and> (\<forall>i. i < 0 \<or> (0 + Suc k * ?n \<le> i \<and> i < length X) \<longrightarrow> X' ! i = X ! i)"
  proof (rule segment_step [OF _ k])
    show "0 + n_cells m * ?n \<le> length X" using len tot by simp
    show "length ?U = ?n" using sz by (rule spec_cell_block_length)
    show "\<forall>i<k * ?n. X ! (0 + i) = ?P i" using cells by simp
    show "\<forall>j < ?n. ?U ! j = ?P (k * ?n + j)" by simp
  qed
  then obtain X1 where X1: "segment_assign X (k * ?n) ?n ?U = Inr X1" "length X1 = length X"
      "\<forall>i < Suc k * ?n. X1 ! i = ?P i"
      "\<forall>i. Suc k * ?n \<le> i \<and> i < length X \<longrightarrow> X1 ! i = X ! i"
    by auto
  have above: "Suc k * ?n \<le> ?c"
    unfolding tot(2) using k by (intro mult_le_mono1) simp
  have faces1: "\<forall>i < ntotal_face_dofs hc. X1 ! (?c + i) = face_part hc env f doe i"
    using X1(4) faces above len tot(1) by simp
  show ?thesis
  proof (cases "L = - 1")
    case False
    have "X1 ! i = cell_part hc env f doe i" if i: "i < Suc k * ?n" for i
    proof (cases "i < k * ?n")
      case True
      then show ?thesis using X1(3) i by simp
    next
      case ge: False
      then have "i div ?n = k" "i mod ?n = i - k * ?n"
        using block_index_div [of k ?n i] i by simp_all
      then have "cell_part hc env f doe i = ?U ! (i - k * ?n)"
        using False by (simp add: cell_part_def tot(5))
      then show ?thesis using X1(3) i ge by simp
    qed
    then show ?thesis
      using False X1(1,2) faces1 len
      by (simp add: Let_def cell_projection_spec tot(5))
  next
    case True
    then have n1: "?n = 1" by (simp add: hc)
    then have c: "?c = n_cells m" using tot(2) by simp
    let ?cell = "mesh_cells m ! k"
    let ?g = "\<lambda>ilF. global_index (cm_faces ?cell ! ilF)"
    have wl: "length (compute_weights env k) = length (cm_faces ?cell)"
      using wf True k by (simp add: weights_sized_def)
    from rescale_weights_result [OF this, of env k]
    obtain b where b: "rescale_weights env k ?cell (compute_weights env k) = Inr b"
        "length b = length (cm_faces ?cell)"
        "\<forall>ilF < length (cm_faces ?cell). b ! ilF = rescaled_weight hc env k ilF"
      unfolding rescaled_weight_def Let_def tot(4) using wl by auto
    have gi: "?g ilF < n_faces m" if "ilF < length (cm_faces ?cell)" for ilF
    proof -
      have "?cell \<in> set (mesh_cells m)" using k by (simp add: n_cells_def)
      moreover have "cm_faces ?cell ! ilF \<in> set (cm_faces ?cell)" using that by simp
      ultimately show ?thesis using wf True by (auto simp: faces_indexed_def)
    qed
    have gf: "?g ilF < ntotal_face_dofs hc" if "ilF < length (cm_faces ?cell)" for ilF
    proof -
      have "1 \<le> nlocal_face_dofs hc"
        using dim_Pface_pos [of K] by (simp add: hc)
      then have "n_faces m * 1 \<le> n_faces m * nlocal_face_dofs hc"
        by (rule mult_le_mono2)
      then have "n_faces m \<le> ntotal_face_dofs hc"
        by (simp only: tot(3) mult_1_right)
      with gi [OF that] show ?thesis by (rule less_le_trans)
    qed
    have "\<exists>X'. average_faces hc k ?cell b X1 = Inr X' \<and> length X' = length X1
           \<and> X' ! k = (\<Sum>ilF\<leftarrow>[0..<length (cm_faces ?cell)]. b ! ilF * X1 ! (?c + ?g ilF))
           \<and> (\<forall>i. i \<noteq> k \<longrightarrow> X' ! i = X1 ! i)"
    proof (rule average_faces_result)
      show "k < length X1" using X1(2) len tot(1) c k by simp
      show "length b = length (cm_faces ?cell)" by (rule b(2))
      show "\<forall>ilF < length (cm_faces ?cell). ?c + ?g ilF < length X1 \<and> ?c + ?g ilF \<noteq> k"
        using gf X1(2) len tot(1) c k by auto
    qed
    then obtain X2 where X2: "average_faces hc k ?cell b X1 = Inr X2" "length X2 = length X1"
        "X2 ! k = (\<Sum>ilF\<leftarrow>[0..<length (cm_faces ?cell)]. b ! ilF * X1 ! (?c + ?g ilF))"
        "\<forall>i. i \<noteq> k \<longrightarrow> X2 ! i = X1 ! i"
      by blast
    have "map (\<lambda>ilF. b ! ilF * X1 ! (?c + ?g ilF)) [0..<length (cm_faces ?cell)]
        = map (\<lambda>ilF. rescaled_weight hc env k ilF * face_part hc env f doe (?g ilF))
            [0..<length (cm_faces ?cell)]"
      using b(3) faces1 gf by (intro map_cong) simp_all
    then have "X2 ! k = (\<Sum>ilF\<leftarrow>[0..<length (cm_faces ?cell)].
                  rescaled_weight hc env k ilF * face_part hc env f doe (?g ilF))"
      by (simp only: X2(3))
    moreover have "cell_part hc env f doe k = averaged_slot hc env f doe k"
      using True by (simp add: cell_part_def tot(5))
    ultimately have slot: "X2 ! k = cell_part hc env f doe k"
      by (simp only: averaged_slot_def tot(4))
    have cellsS: "X2 ! i = cell_part hc env f doe i" if "i < Suc k * ?n" for i
    proof (cases "i = k")
      case True
      then show ?thesis using slot by simp
    next
      case False
      then have "i < k * ?n" using that n1 by simp
      then show ?thesis using False X2(4) X1(3) that by simp
    qed
    have facesS: "\<forall>i < ntotal_face_dofs hc. X2 ! (?c + i) = face_part hc env f doe i"
      using X2(4) faces1 c k by simp
    show ?thesis
      using True X1(1,2) X2(1,2) b(1) cellsS facesS len
      by (simp add: Let_def cell_projection_spec tot(4,5))
  qed
qed

lemma interpolate_result:
  assumes sz: "solver_sized env" and hc: "hc = HybridCore m K L"
    and wf: "L = - 1 \<longrightarrow> faces_indexed m \<and> weights_sized m env"
  shows "\<exists>XTF. interpolate hc env f doe = Inr XTF \<and> length XTF = ntotal_dofs hc
           \<and> (\<forall>i < ntotal_cell_dofs hc. XTF ! i = cell_part hc env f doe i)
           \<and> (\<forall>i < ntotal_face_dofs hc. XTF ! (ntotal_cell_dofs hc + i) = face_part hc env f doe i)"
proof -
  have m: "mesh_ptr hc = m" "ntotal_cell_dofs hc = n_cells m * nlocal_cell_dofs hc"
    by (simp_all add: hc)
  from face_loop_result [OF sz hc, of f doe]
  obtain X0 where X0: "for_loop [0..<n_faces m] (\<lambda>iF XTF.
                 let UF = face_projection hc env f doe iF in
                 segment_assign XTF (ntotal_cell_dofs hc + iF * nlocal_face_dofs hc)
                   (nlocal_face_dofs hc) UF)
               (VectorXd_Zero (ntotal_dofs hc)) = Inr X0"
      "length X0 = ntotal_dofs hc"
      "\<forall>i < ntotal_face_dofs hc. X0 ! (ntotal_cell_dofs hc + i) = face_part hc env f doe i"
    by blast
  let ?J = "\<lambda>k X. length X = ntotal_dofs hc
          \<and> (\<forall>i < k * nlocal_cell_dofs hc. X ! i = cell_part hc env f doe i)
          \<and> (\<forall>i < ntotal_face_dofs hc. X ! (ntotal_cell_dofs hc + i) = face_part hc env f doe i)"
  let ?body = "\<lambda>iT XTF.
          let cell = mesh_cells (mesh_ptr hc) ! iT;
              UT = cell_projection hc env f doe iT;
              offset_T = iT * nlocal_cell_dofs hc
          in bindE (segment_assign XTF offset_T (nlocal_cell_dofs hc) UT) (\<lambda>XTF.
               if hc_L hc = - 1 then
                 bindE (rescale_weights env iT cell (compute_weights env iT)) (\<lambda>barycoefT.
                   average_faces hc iT cell barycoefT XTF)
               else Inr XTF)"
  have "\<exists>X. for_loop [0..<n_cells m] ?body X0 = Inr X \<and> ?J (n_cells m) X"
  proof (rule for_loop_invariant)
    show "?J 0 X0" using X0(2,3) by simp
  next
    fix k X
    assume "k < n_cells m" and "?J k X"
    then show "\<exists>X'. ?body k X = Inr X' \<and> ?J (Suc k) X'"
      using cell_step [OF sz hc wf, of k X f doe] by blast
  qed
  then obtain X where X: "for_loop [0..<n_cells m] ?body X0 = Inr X" "?J (n_cells m) X"
    by blast
  have "interpolate hc env f doe = Inr X"
    unfolding interpolate_def m(1) by (simp only: X0(1) bindE_simps X(1) [unfolded m(1)])
  with X(2) show ?thesis unfolding m(2) by blast
qed

subsection \<open>The sample mesh\<close>

lemma ex_env_fields [simp]:
  "generate_quadrature_rule_cell ex_env = ex_cell_rule"
  "generate_quadrature_rule_face ex_env = ex_face_rule"
  "basis_quad ex_env = ex_basis_quad"
  "gram_matrix ex_env = ex_gram_matrix"
  "ldlt_solve ex_env = ex_solve"
  "compute_weights ex_env iT = [1 / 4, 3 / 4]"
  "cell_basis ex_env iT i x y z = 1"
  "face_basis ex_env = ex_face_basis"
  by (simp_all add: ex_env_def)

lemma ex_mesh_fields [simp]:
  "n_faces ex_mesh = 2" "n_cells ex_mesh = 1"
  "mesh_cells ex_mesh ! 0 = \<lparr> cm_center_mass = (6, 0, 0),
            cm_faces = [\<lparr> global_index = 0, fc_center_mass = (5, 0, 0) \<rparr>,
                        \<lparr> global_index = 1, fc_center_mass = (7, 0, 0) \<rparr>] \<rparr>"
  by (simp_all add: ex_mesh_def n_cells_def)

lemma ex_solver_sized: "solver_sized ex_env"
  by (simp add: solver_sized_def ex_solve_def ex_gram_matrix_def)

lemma ex_faces_indexed: "faces_indexed ex_mesh"
  by (simp add: faces_indexed_def ex_mesh_def)

lemma ex_weights_sized: "weights_sized ex_mesh ex_env"
  by (simp add: weights_sized_def)

lemma dim_small [simp]: "dim_Pface 0 = 1" "dim_Pface 1 = 3" "dim_Pface (Suc 0) = 3"
  by (simp_all add: dim_Pface_def)

lemma upt_small [simp]: "[0..<3] = [0, 1, 2]" "[0..<4] = [0, 1, 2, 3]" "[0..<Suc 0] = [0]"
  by (simp_all add: upt_rec)

lemma ex_face_block_K1:
  "spec_face_block (HybridCore ex_mesh 1 L) ex_env ex_f doe iF = [5 + 2 * real iF, 1, 0]"
  "spec_face_block (HybridCore ex_mesh (Suc 0) L) ex_env ex_f doe iF = [5 + 2 * real iF, 1, 0]"
  by (simp_all add: spec_face_block_def spec_load_vector_def ex_solve_def ex_gram_matrix_def
        ex_face_rule_def ex_basis_quad_def ex_face_basis_def ex_f_def field_simps)

lemma ex_face_block_K0:
  "spec_face_block (HybridCore ex_mesh 0 L) ex_env ex_f doe iF = [5 + 2 * real iF]"
  by (simp add: spec_face_block_def spec_load_vector_def ex_solve_def ex_gram_matrix_def
        ex_face_rule_def ex_basis_quad_def ex_face_basis_def ex_f_def field_simps)

lemma ex_cell_block:
  "spec_cell_block (HybridCore ex_mesh K (- 1)) ex_env ex_f 0 0 = [6]"
  "spec_cell_block (HybridCore ex_mesh K 0) ex_env ex_f 0 0 = [6]"
  by (simp_all add: spec_cell_block_def spec_load_vector_def ex_solve_def ex_gram_matrix_def
        ex_cell_rule_def ex_basis_quad_def ex_f_def)

lemma ex_rescaled:
  "rescaled_weight (HybridCore ex_mesh K L) ex_env 0 0 = 1 / 4"
  "rescaled_weight (HybridCore ex_mesh K L) ex_env 0 (Suc 0) = 3 / 4"
  by (simp_all add: rescaled_weight_def ex_face_basis_def)

subsection \<open>Interpolation\<close>

lemma segment_eq:
  assumes "start + n \<le> length X" "length U = n" "\<forall>j < n. X ! (start + j) = U ! j"
  shows "segment X start n = Inr U"
proof -
  have "take n (drop start X) = U"
    using assms by (intro nth_equalityI) simp_all
  then show ?thesis using assms(1) by (simp add: segment_def)
qed

lemma cell_part_block:
  "hc_L hc \<noteq> - 1 \<Longrightarrow> j < nlocal_cell_dofs hc \<Longrightarrow>
   cell_part hc env f doe (iT * nlocal_cell_dofs hc + j) = spec_cell_block hc env f doe iT ! j"
  by (simp add: cell_part_def)

text \<open>
  Claim C2, amended. Given a local solver and a Gram matrix of the requested sizes,
  \<open>interpolate\<close> returns a vector of \<open>ntotal_dofs\<close> entries in which the block of face \<open>iF\<close>,
  of length \<open>nlocal_face_dofs\<close> at offset \<open>ntotal_cell_dofs + iF * nlocal_face_dofs\<close>, is the
  solver's solution of the local system of the face with the load vector of \<open>f\<close>; and, when
  \<open>L\<close> is not \<open>-1\<close>, the block of cell \<open>iT\<close>, of length \<open>nlocal_cell_dofs\<close> at offset
  \<open>iT * nlocal_cell_dofs\<close>, is the solution of the local system of the cell. (For \<open>L = -1\<close>
  the mesh must index its faces and the weights must have one entry per face.)
\<close>

theorem interpolate_blocks:
  assumes "solver_sized env" and "L = - 1 \<longrightarrow> faces_indexed m \<and> weights_sized m env"
  shows "\<exists>XTF. interpolate (HybridCore m K L) env f doe = Inr XTF
           \<and> length XTF = ntotal_cell_dofs (HybridCore m K L) + ntotal_face_dofs (HybridCore m K L)
           \<and> (\<forall>iF < n_faces m.
                 segment XTF (ntotal_cell_dofs (HybridCore m K L)
                                + iF * nlocal_face_dofs (HybridCore m K L))
                   (nlocal_face_dofs (HybridCore m K L))
                   = Inr (spec_face_block (HybridCore m K L) env f doe iF))
           \<and> (L \<noteq> - 1 \<longrightarrow>
                (\<forall>iT < n_cells m.
                   segment XTF (iT * nlocal_cell_dofs (HybridCore m K L))
                     (nlocal_cell_dofs (HybridCore m K L))
                     = Inr (spec_cell_block (HybridCore m K L) env f doe iT)))"
proof -
  define hc where "hc = HybridCore m K L"
  let ?nf = "nlocal_face_dofs hc" and ?nc = "nlocal_cell_dofs hc" and ?c = "ntotal_cell_dofs hc"
  have tot: "ntotal_dofs hc = ?c + ntotal_face_dofs hc" "?c = n_cells m * ?nc"
    "ntotal_face_dofs hc = n_faces m * ?nf" "hc_L hc = L"
    by (simp_all add: hc_def)
  from interpolate_result [OF assms(1) hc_def assms(2), of f doe]
  obtain XTF where X: "interpolate hc env f doe = Inr XTF" "length XTF = ntotal_dofs hc"
      "\<forall>i < ?c. XTF ! i = cell_part hc env f doe i"
      "\<forall>i < ntotal_face_dofs hc. XTF ! (?c + i) = face_part hc env f doe i"
    by blast
  have F: "segment XTF (?c + iF * ?nf) ?nf = Inr (spec_face_block hc env f doe iF)"
    if iF: "iF < n_faces m" for iF
  proof (rule segment_eq)
    have "Suc iF * ?nf \<le> n_faces m * ?nf" using iF by (intro mult_le_mono1) simp
    then show "?c + iF * ?nf + ?nf \<le> length XTF" using X(2) tot by simp
    show "length (spec_face_block hc env f doe iF) = ?nf"
      using assms(1) by (rule spec_face_block_length)
    show "\<forall>j < ?nf. XTF ! (?c + iF * ?nf + j) = spec_face_block hc env f doe iF ! j"
    proof (intro allI impI)
      fix j assume j: "j < ?nf"
      then have "iF * ?nf + j < ntotal_face_dofs hc"
        unfolding tot(3) using iF by (intro block_index_less)
      then have "XTF ! (?c + (iF * ?nf + j)) = face_part hc env f doe (iF * ?nf + j)"
        using X(4) by blast
      then show "XTF ! (?c + iF * ?nf + j) = spec_face_block hc env f doe iF ! j"
        using j by (simp add: face_part_block add.assoc)
    qed
  qed
  have C: "segment XTF (iT * ?nc) ?nc = Inr (spec_cell_block hc env f doe iT)"
    if iT: "iT < n_cells m" and L: "L \<noteq> - 1" for iT
  proof (rule segment_eq)
    have "Suc iT * ?nc \<le> n_cells m * ?nc" using iT by (intro mult_le_mono1) simp
    then show "iT * ?nc + ?nc \<le> length XTF" using X(2) tot by simp
    show "length (spec_cell_block hc env f doe iT) = ?nc"
      using assms(1) by (rule spec_cell_block_length)
    show "\<forall>j < ?nc. XTF ! (iT * ?nc + j) = spec_cell_block hc env f doe iT ! j"
    proof (intro allI impI)
      fix j assume j: "j < ?nc"
      then have "iT * ?nc + j < ?c"
        unfolding tot(2) using iT by (intro block_index_less)
      then have "XTF ! (iT * ?nc + j) = cell_part hc env f doe (iT * ?nc + j)"
        using X(3) by blast
      then show "XTF ! (iT * ?nc + j) = spec_cell_block hc env f doe iT ! j"
        using j L by (simp add: cell_part_block tot(4))
    qed
  qed
  from X(1,2) F C show ?thesis
    unfolding hc_def [symmetric] tot(1) by blast
qed

text \<open>Degree 0 on the faces and in the cell of the sample mesh, for \<open>f = x\<close>.\<close>

theorem interpolate_blocks_witness:
  "solver_sized ex_env \<and> faces_indexed ex_mesh \<and> weights_sized ex_mesh ex_env
   \<and> block_of (interpolate (HybridCore ex_mesh 0 0) ex_env ex_f 0) 0 1 = Inr [6]
   \<and> block_of (interpolate (HybridCore ex_mesh 0 0) ex_env ex_f 0) 1 1 = Inr [5]
   \<and> block_of (interpolate (HybridCore ex_mesh 0 0) ex_env ex_f 0) 2 1 = Inr [7]
   \<and> block_of (interpolate (HybridCore ex_mesh 0 (- 1)) ex_env ex_f 0) 1 1 = Inr [5]"
proof -
  have L: "(0::int) = - 1 \<longrightarrow> faces_indexed ex_mesh \<and> weights_sized ex_mesh ex_env" by simp
  from interpolate_blocks [OF ex_solver_sized L, of 0 ex_f 0]
  obtain XTF where X: "interpolate (HybridCore ex_mesh 0 0) ex_env ex_f 0 = Inr XTF"
      "\<forall>iF < 2. segment XTF (1 + iF) 1 = Inr (spec_face_block (HybridCore ex_mesh 0 0) ex_env ex_f 0 iF)"
      "\<forall>iT < 1. segment XTF iT 1 = Inr (spec_cell_block (HybridCore ex_mesh 0 0) ex_env ex_f 0 iT)"
    by auto
  have 0: "segment XTF 0 1 = Inr [6]" using X(3) by (simp add: ex_cell_block)
  have 1: "segment XTF (1 + 0) 1 = Inr [5]" using X(2) ex_face_block_K0 [of 0 0 0] by simp
  have 2: "segment XTF 2 1 = Inr [7]"
    using X(2) [rule_format, of 1] ex_face_block_K0 [of 0 0 1] by (simp add: numeral_2_eq_2)
  have L': "(- 1::int) = - 1 \<longrightarrow> faces_indexed ex_mesh \<and> weights_sized ex_mesh ex_env"
    using ex_faces_indexed ex_weights_sized by simp
  from interpolate_blocks [OF ex_solver_sized L', of 0 ex_f 0]
  obtain Y where Y: "interpolate (HybridCore ex_mesh 0 (- 1)) ex_env ex_f 0 = Inr Y"
      "\<forall>iF < 2. segment Y (1 + iF) 1
          = Inr (spec_face_block (HybridCore ex_mesh 0 (- 1)) ex_env ex_f 0 iF)"
    by auto
  have 3: "segment Y (1 + 0) 1 = Inr [5]" using Y(2) ex_face_block_K0 [of "- 1" 0 0] by simp
  from 0 1 2 3 X(1) Y(1) show ?thesis
    using ex_solver_sized ex_faces_indexed ex_weights_sized by (simp add: block_of_def)
qed

text \<open>
  With \<open>L = -1\<close> on the sample mesh the slot of the cell holds the weighted average 13/2 of
  the face values 5 and 7, not the solution 6 of the local system of the cell.
\<close>

theorem interpolate_blocks_counterexample:
  "block_of (interpolate (HybridCore ex_mesh 0 (- 1)) ex_env ex_f 0) 0 1 = Inr [13 / 2]
   \<and> spec_cell_block (HybridCore ex_mesh 0 (- 1)) ex_env ex_f 0 0 = [6]"
proof -
  have wf: "(- 1::int) = - 1 \<longrightarrow> faces_indexed ex_mesh \<and> weights_sized ex_mesh ex_env"
    using ex_faces_indexed ex_weights_sized by simp
  from interpolate_result [OF ex_solver_sized refl wf, of 0 ex_f 0]
  obtain XTF where X: "interpolate (HybridCore ex_mesh 0 (- 1)) ex_env ex_f 0 = Inr XTF"
      "length XTF = 3" "XTF ! 0 = cell_part (HybridCore ex_mesh 0 (- 1)) ex_env ex_f 0 0"
    by auto
  have "cell_part (HybridCore ex_mesh 0 (- 1)) ex_env ex_f 0 0 = 13 / 2"
    by (simp add: cell_part_def averaged_slot_def ex_rescaled face_part_def ex_face_block_K0)
  with X have "segment XTF 0 1 = Inr [13 / 2]"
    by (intro segment_eq) simp_all
  with X(1) show ?thesis
    by (simp add: block_of_def ex_cell_block)
qed

text \<open>
  With one unknown per face the entry of the face part at the global index of a face is the
  first (and only) entry of the block of that face.
\<close>

lemma averaged_slot_one_face_dof:
  "nlocal_face_dofs hc = 1 \<Longrightarrow>
   averaged_slot hc env f doe iT = spec_averaged_slot hc env f doe iT"
  by (simp add: averaged_slot_def spec_averaged_slot_def face_part_def)

text \<open>
  Claim C1 at face degree 1 and \<open>L = -1\<close> on the sample mesh. The blocks of the two faces
  are \<open>[5, 1, 0]\<close> and \<open>[7, 1, 0]\<close>; the rescaled weights are 1/4 and 3/4. The slot of the
  cell receives \<open>1/4 * 5 + 3/4 * 1 = 2\<close>, where the second factor 1 is the entry at index
  \<open>ntotal_cell_dofs + 1\<close>, the second entry of the block of face 0. The sum over the first
  entries of the blocks of the faces of the cell is \<open>1/4 * 5 + 3/4 * 7 = 13/2\<close>.
\<close>

theorem interpolate_degenerate_slot_at_degree_1:
  "block_of (interpolate (HybridCore ex_mesh 1 (- 1)) ex_env ex_f 0) 0 1 = Inr [2]
   \<and> block_of (interpolate (HybridCore ex_mesh 1 (- 1)) ex_env ex_f 0) 1 3 = Inr [5, 1, 0]
   \<and> block_of (interpolate (HybridCore ex_mesh 1 (- 1)) ex_env ex_f 0) 4 3 = Inr [7, 1, 0]
   \<and> spec_averaged_slot (HybridCore ex_mesh 1 (- 1)) ex_env ex_f 0 0 = 13 / 2"
proof -
  let ?hc = "HybridCore ex_mesh 1 (- 1)"
  have wf: "(- 1::int) = - 1 \<longrightarrow> faces_indexed ex_mesh \<and> weights_sized ex_mesh ex_env"
    using ex_faces_indexed ex_weights_sized by simp
  from interpolate_result [OF ex_solver_sized refl wf, of 1 ex_f 0]
  obtain XTF where X: "interpolate ?hc ex_env ex_f 0 = Inr XTF"
      "length XTF = 7" "XTF ! 0 = cell_part ?hc ex_env ex_f 0 0"
      "\<forall>i < 6. XTF ! (1 + i) = face_part ?hc ex_env ex_f 0 i"
    by auto
  have fp: "face_part ?hc ex_env ex_f 0 i = ([5, 1, 0] @ [7, 1, 0]) ! i" if "i < 6" for i
  proof -
    from that consider "i = 0" | "i = 1" | "i = 2" | "i = 3" | "i = 4" | "i = 5" by linarith
    then show ?thesis
      by cases (simp_all add: face_part_def ex_face_block_K1)
  qed
  have "cell_part ?hc ex_env ex_f 0 0 = 2"
    using fp [of 0] fp [of 1]
    by (simp add: cell_part_def averaged_slot_def ex_rescaled)
  with X have 1: "segment XTF 0 1 = Inr [2]"
    by (intro segment_eq) simp_all
  have 2: "segment XTF 1 3 = Inr [5, 1, 0]"
  proof (rule segment_eq)
    show "\<forall>j<3. XTF ! (1 + j) = [5, 1, 0] ! j"
    proof (intro allI impI)
      fix j :: nat assume "j < 3"
      then consider "j = 0" | "j = 1" | "j = 2" by linarith
      then show "XTF ! (1 + j) = [5, 1, 0] ! j"
        using X(4) fp by cases simp_all
    qed
  qed (use X(2) in simp_all)
  have 3: "segment XTF 4 3 = Inr [7, 1, 0]"
  proof (rule segment_eq)
    show "\<forall>j<3. XTF ! (4 + j) = [7, 1, 0] ! j"
    proof (intro allI impI)
      fix j :: nat assume "j < 3"
      then consider "j = 0" | "j = 1" | "j = 2" by linarith
      then show "XTF ! (4 + j) = [7, 1, 0] ! j"
        using X(4) [rule_format, of "3 + j"] fp [of "3 + j"] by cases simp_all
    qed
  qed (use X(2) in simp_all)
  have 4: "spec_averaged_slot ?hc ex_env ex_f 0 0 = 13 / 2"
    by (simp add: spec_averaged_slot_def ex_rescaled ex_face_block_K1)
  from X(1) 1 2 3 4 show ?thesis
    by (simp add: block_of_def)
qed

subsection \<open>Integration helpers\<close>

lemma for_loop_pure: "for_loop xs (\<lambda>i s. Inr (g i s)) s = Inr (fold g xs s)"
  by (induction xs arbitrary: s) simp_all

lemma fold_enumerate:
  "fold (\<lambda>i. F i (q ! i)) [0..<length q] s = fold (\<lambda>(i, nd). F i nd) (enumerate 0 q) s"
proof -
  have "enumerate 0 q = map (\<lambda>i. (i, q ! i)) [0..<length q]"
    by (intro nth_equalityI) (simp_all add: nth_enumerate_eq)
  then show ?thesis
    by (simp add: fold_map comp_def)
qed

lemma fold_plus_sum: "fold (\<lambda>x (a::real). a + h x) xs a = a + sum_list (map h xs)"
  by (induction xs arbitrary: a) (simp_all add: add.assoc)

lemma spec_integral_indexed:
  "spec_integral q f
     = sum_list (map (\<lambda>i. node_w (q ! i) * f (node_x (q ! i)) (node_y (q ! i)) (node_z (q ! i)))
                     [0..<length q])"
proof -
  have "map (\<lambda>i. node_w (q ! i) * f (node_x (q ! i)) (node_y (q ! i)) (node_z (q ! i))) [0..<length q]
      = map (\<lambda>nd. node_w nd * f (node_x nd) (node_y nd) (node_z nd)) (map ((!) q) [0..<length q])"
    by (simp only: map_map comp_def)
  also have "\<dots> = map (\<lambda>nd. node_w nd * f (node_x nd) (node_y nd) (node_z nd)) q"
    by (simp only: map_nth)
  finally show ?thesis by (simp only: spec_integral_def)
qed

lemma quadrature_over_cell_fold:
  "iT < n_cells (mesh_ptr hc) \<Longrightarrow>
   quadrature_over_cell hc env iT f s
     = Inr (fold (\<lambda>(iqn, nd). f iqn (node_x nd) (node_y nd) (node_z nd) (node_w nd))
              (enumerate 0 (generate_quadrature_rule_cell env iT (2 * hc_Ldeg hc + 2))) s)"
  unfolding quadrature_over_cell_def Let_def
  by (simp only: for_loop_pure fold_enumerate [where F = "\<lambda>i nd. f i (node_x nd) (node_y nd) (node_z nd) (node_w nd)"]
        simp_thms if_False)

lemma quadrature_over_face_fold:
  "iF < n_faces (mesh_ptr hc) \<Longrightarrow>
   quadrature_over_face hc env iF f s
     = Inr (fold (\<lambda>(iqn, nd). f iqn (node_x nd) (node_y nd) (node_z nd) (node_w nd))
              (enumerate 0 (generate_quadrature_rule_face env iF (2 * hc_K hc + 2))) s)"
  unfolding quadrature_over_face_def Let_def
  by (simp only: for_loop_pure fold_enumerate [where F = "\<lambda>i nd. f i (node_x nd) (node_y nd) (node_z nd) (node_w nd)"]
        simp_thms if_False)

lemma integrate_over_cell_sum:
  "iT < n_cells (mesh_ptr hc) \<Longrightarrow>
   integrate_over_cell hc env iT g
     = Inr (spec_integral (generate_quadrature_rule_cell env iT (2 * hc_Ldeg hc + 2)) g)"
  unfolding integrate_over_cell_def quadrature_over_cell_def Let_def
  by (simp add: for_loop_pure fold_plus_sum spec_integral_indexed)

lemma integrate_over_face_sum:
  "iF < n_faces (mesh_ptr hc) \<Longrightarrow>
   integrate_over_face hc env iF g
     = Inr (spec_integral (generate_quadrature_rule_face env iF (2 * hc_K hc + 2)) g)"
  unfolding integrate_over_face_def quadrature_over_face_def Let_def
  by (simp add: for_loop_pure fold_plus_sum spec_integral_indexed)

text \<open>
  Claim C8, amended. For a valid cell index the rule of \<open>quadrature_over_cell\<close> has degree
  \<open>2 * _Ldeg + 2\<close>, which is \<open>2 * L + 2\<close> for \<open>L \<ge> 0\<close> and 2 for \<open>L = -1\<close>; for a valid face
  index the rule of \<open>quadrature_over_face\<close> has degree \<open>2 * K + 2\<close>. The evaluator is applied
  to each node with its index, in the order of the rule, and \<open>integrate_over_cell\<close> and
  \<open>integrate_over_face\<close> return the sum over the nodes of weight times \<open>f\<close> at the point.
\<close>

theorem quadrature_helpers:
  assumes "iT < n_cells (mesh_ptr hc)" and "iF < n_faces (mesh_ptr hc)"
  shows "quadrature_over_cell hc env iT f s
           = Inr (fold (\<lambda>(iqn, nd). f iqn (node_x nd) (node_y nd) (node_z nd) (node_w nd))
                    (enumerate 0 (generate_quadrature_rule_cell env iT (2 * hc_Ldeg hc + 2))) s)
       \<and> quadrature_over_face hc env iF f s
           = Inr (fold (\<lambda>(iqn, nd). f iqn (node_x nd) (node_y nd) (node_z nd) (node_w nd))
                    (enumerate 0 (generate_quadrature_rule_face env iF (2 * hc_K hc + 2))) s)
       \<and> integrate_over_cell hc env iT g
           = Inr (spec_integral (generate_quadrature_rule_cell env iT (2 * hc_Ldeg hc + 2)) g)
       \<and> integrate_over_face hc env iF g
           = Inr (spec_integral (generate_quadrature_rule_face env iF (2 * hc_K hc + 2)) g)
       \<and> (0 \<le> L \<longrightarrow> int (2 * hc_Ldeg (HybridCore m K L) + 2) = 2 * L + 2)
       \<and> (L = - 1 \<longrightarrow> 2 * hc_Ldeg (HybridCore m K L) + 2 = 2)"
proof -
  have a: "0 \<le> L \<longrightarrow> int (2 * hc_Ldeg (HybridCore m K L) + 2) = 2 * L + 2" by simp
  have b: "L = - 1 \<longrightarrow> 2 * hc_Ldeg (HybridCore m K L) + 2 = 2" by simp
  from a b show ?thesis
    by (simp only: quadrature_over_cell_fold [OF assms(1)] quadrature_over_face_fold [OF assms(2)]
          integrate_over_cell_sum [OF assms(1)] integrate_over_face_sum [OF assms(2)] simp_thms)
qed

text \<open>
  Cell 0 of the sample mesh at cell degree 0: the rule of degree 2 has the nodes 6, 7 and 8
  with weight 1/3 each; the recording evaluator sees them in this order.
\<close>

theorem quadrature_helpers_witness:
  "0 < n_cells (mesh_ptr (HybridCore ex_mesh 0 0)) \<and> 1 < n_faces (mesh_ptr (HybridCore ex_mesh 0 0))
   \<and> quadrature_over_cell (HybridCore ex_mesh 0 0) ex_env 0 record_call []
       = Inr [(0, 6, 0, 0, 1 / 3), (1, 7, 0, 0, 1 / 3), (2, 8, 0, 0, 1 / 3)]
   \<and> integrate_over_cell (HybridCore ex_mesh 0 0) ex_env 0 ex_f = Inr 7
   \<and> integrate_over_face (HybridCore ex_mesh 0 0) ex_env 1 ex_f = Inr 7"
proof -
  have c: "0 < n_cells (mesh_ptr (HybridCore ex_mesh 0 0))"
    and f: "1 < n_faces (mesh_ptr (HybridCore ex_mesh 0 0))"
    by simp_all
  note t = quadrature_helpers [OF c f, where env = ex_env]
  have r: "ex_cell_rule 0 2 = [\<lparr> node_x = 6, node_y = 0, node_z = 0, node_w = 1 / 3 \<rparr>,
            \<lparr> node_x = 7, node_y = 0, node_z = 0, node_w = 1 / 3 \<rparr>,
            \<lparr> node_x = 8, node_y = 0, node_z = 0, node_w = 1 / 3 \<rparr>]"
    by (simp add: ex_cell_rule_def)
  have r': "ex_cell_rule 0 (Suc (Suc 0)) = ex_cell_rule 0 2"
    by (simp add: numeral_2_eq_2)
  have 1: "quadrature_over_cell (HybridCore ex_mesh 0 0) ex_env 0 record_call []
       = Inr [(0, 6, 0, 0, 1 / 3), (1, 7, 0, 0, 1 / 3), (2, 8, 0, 0, 1 / 3)]"
    using t [where f = record_call and s = "[]", THEN conjunct1]
    by (simp add: r r' record_call_def)
  have 2: "integrate_over_cell (HybridCore ex_mesh 0 0) ex_env 0 ex_f = Inr 7"
    using t [where g = ex_f, THEN conjunct2, THEN conjunct2, THEN conjunct1]
    by (simp add: r r' spec_integral_def ex_f_def)
  have 3: "integrate_over_face (HybridCore ex_mesh 0 0) ex_env 1 ex_f = Inr 7"
    using t [where g = ex_f, THEN conjunct2, THEN conjunct2, THEN conjunct2, THEN conjunct1]
    by (simp add: ex_face_rule_def spec_integral_def ex_f_def)
  from c f 1 2 3 show ?thesis by (simp only: simp_thms)
qed

text \<open>
  With \<open>L = -1\<close> the cell rule still has degree 2 (integral 7 of \<open>f = x\<close> over the sample
  cell), where \<open>2 * L + 2\<close> is 0 (whose rule gives 6).
\<close>

theorem quadrature_helpers_counterexample:
  "0 < n_cells (mesh_ptr (HybridCore ex_mesh 0 (- 1)))
   \<and> integrate_over_cell (HybridCore ex_mesh 0 (- 1)) ex_env 0 ex_f = Inr 7
   \<and> 2 * hc_L (HybridCore ex_mesh 0 (- 1)) + 2 = 0
   \<and> spec_integral (generate_quadrature_rule_cell ex_env 0
         (nat (2 * hc_L (HybridCore ex_mesh 0 (- 1)) + 2))) ex_f = 6"
proof -
  have c: "0 < n_cells (mesh_ptr (HybridCore ex_mesh 0 (- 1)))" by simp
  have "integrate_over_cell (HybridCore ex_mesh 0 (- 1)) ex_env 0 ex_f = Inr 7"
    by (simp add: integrate_over_cell_sum [OF c] ex_cell_rule_def spec_integral_def ex_f_def)
  moreover have "spec_integral (generate_quadrature_rule_cell ex_env 0
         (nat (2 * hc_L (HybridCore ex_mesh 0 (- 1)) + 2))) ex_f = 6"
    by (simp add: ex_cell_rule_def spec_integral_def ex_f_def)
  ultimately show ?thesis by simp
qed

end
